theory Spec2Isabelle
  imports Main "HOL-Library.AList" "HOL-Library.Sublist"
begin

section \<open>Data model of the emprinten renderer\<close>

text \<open>
  The development embeds \<^verbatim>\<open>backend/emprinten/renderer.py\<close>. Python objects that the
  code mutates or shares (the rows of the data set, the temporary directory tree) live
  in an explicit \<open>world\<close>; exceptions are values of type \<open>error\<close>; the template engine,
  the HTML-to-PDF engine and the helpers of \<^verbatim>\<open>emprinten/files.py\<close> are parameters
  collected in the record \<open>engine\<close>.
\<close>

text \<open>
  Modelled from the spec: \<^verbatim>\<open>ProjectFile.Type\<close> is declared in \<^verbatim>\<open>emprinten/models.py\<close>.
  The spec names the types Main, HTML, CSS and CSV and speaks of "any other type";
  \<open>OtherType\<close> stands for every further member of the enumeration.
\<close>

datatype file_type = Main | HTML | CSS | CSV | OtherType string

record project_file =
  file_name :: string
  type :: file_type

text \<open>A \<^verbatim>\<open>FileVersion\<close>: the back-reference \<^verbatim>\<open>file\<close> and the payload \<^verbatim>\<open>data\<close>.\<close>

record file_version =
  pfile :: project_file
  data :: string

text \<open>\<^verbatim>\<open>DataRow = dict[str, str | dict[str, Any]]\<close>; a dict is an association list in
  insertion order.\<close>

datatype data_value = Str string | Dict "(string \<times> data_value) list"

type_synonym DataRow = "(string \<times> data_value) list"

text \<open>Rows are objects: a data set is a list of references into the heap of the world.\<close>

type_synonym ref = nat
type_synonym DataSet = "ref list"
type_synonym FileWithData = "string \<times> ref option"
type_synonym Vfs = "(string \<times> file_version) list"

datatype content = Bytes string | Zip "(string \<times> content) list"

datatype error =
    TemplateNotFound string
  | ValueError string
  | KeyError
  | TypeError string
  | FileNotFoundError string
  | ReferenceError nat
  | LibraryError string

datatype response =
    HttpResponse string nat
  | FileResponse content string "string option"

fun status_code :: "response \<Rightarrow> nat" where
  "status_code (HttpResponse body st) = st"
| "status_code (FileResponse stream ctype fname) = 200"

record fetch_result =
  file_obj :: string
  redirected_url :: string

text \<open>
  The world a render call runs in: the directories and files of the file system, the
  counter \<^verbatim>\<open>tempfile.mkdtemp\<close> draws fresh names from, and the heap of row objects.
\<close>

record world =
  dirs :: "string list"
  files :: "(string \<times> content) list"
  tmp_seq :: nat
  heap :: "DataRow list"

text \<open>
  The external collaborators. \<open>from_string\<close>, \<open>template_render\<close> and \<open>template_effect\<close>
  are the sandboxed Jinja environment (compiling a source, the text a render produces,
  and what the render leaves in the dict passed as \<^verbatim>\<open>row\<close>); the first argument of the
  two render functions is the environment's loader. \<open>make_name\<close>, \<open>make_lut\<close> and
  \<open>usable_name\<close> belong to \<^verbatim>\<open>emprinten/files.py\<close>; \<open>weasy_css\<close> and \<open>write_pdf\<close> are
  WeasyPrint, whose first argument is the URL fetcher.
\<close>

record ('tpl, 'lut, 'css) engine =
  from_string :: "string \<Rightarrow> error + 'tpl"
  template_render ::
    "(string \<Rightarrow> error + string) \<Rightarrow> 'tpl \<Rightarrow> DataRow option \<Rightarrow> (string \<times> 'lut) list \<Rightarrow> error + string"
  template_effect ::
    "(string \<Rightarrow> error + string) \<Rightarrow> 'tpl \<Rightarrow> DataRow \<Rightarrow> (string \<times> 'lut) list \<Rightarrow> DataRow"
  make_name :: "string \<Rightarrow> string"
  make_lut :: "string \<Rightarrow> string \<Rightarrow> error + 'lut"
  usable_name :: "string \<Rightarrow> bool"
  weasy_css :: "(string \<Rightarrow> error + fetch_result) \<Rightarrow> string \<Rightarrow> error + 'css"
  write_pdf :: "(string \<Rightarrow> error + fetch_result) \<Rightarrow> string \<Rightarrow> 'css list \<Rightarrow> error + string"

section \<open>Python library functions\<close>

subsection \<open>Strings and paths\<close>

definition LOCAL_FILE_URI_PREFIX :: string where
  "LOCAL_FILE_URI_PREFIX = ''file:///''"

text \<open>\<^verbatim>\<open>str.removeprefix\<close>.\<close>

definition removeprefix :: "string \<Rightarrow> string \<Rightarrow> string" where
  "removeprefix s p = (if prefix p s then drop (length p) s else s)"

text \<open>Decimal digits of a natural number, and the format \<^verbatim>\<open>{idx:03d}\<close>: the digits
  padded with zeros on the left to a width of at least three.\<close>

fun dec :: "nat \<Rightarrow> string" where
  "dec n = (if n < 10 then [''0123456789'' ! n]
            else dec (n div 10) @ [''0123456789'' ! (n mod 10)])"

declare dec.simps [simp del]

definition format_03d :: "nat \<Rightarrow> string" where
  "format_03d n = replicate (3 - length (dec n)) (CHR ''0'') @ dec n"

text \<open>\<^verbatim>\<open>os.path.join\<close> with two arguments, \<^verbatim>\<open>os.path.basename\<close> and
  \<^verbatim>\<open>os.path.splitext\<close> (POSIX).\<close>

definition path_join :: "string \<Rightarrow> string \<Rightarrow> string" where
  "path_join a b =
     (if prefix ''/'' b then b
      else if a = [] \<or> suffix ''/'' a then a @ b
      else a @ ''/'' @ b)"

definition basename :: "string \<Rightarrow> string" where
  "basename p = rev (takeWhile (\<lambda>c. c \<noteq> CHR ''/'') (rev p))"

definition splitext :: "string \<Rightarrow> string \<times> string" where
  "splitext p =
     (let ext_rev = takeWhile (\<lambda>c. c \<noteq> CHR ''.'') (rev p);
          root = take (length p - length ext_rev - 1) p
      in if CHR ''.'' \<in> set p \<and> CHR ''/'' \<notin> set ext_rev
            \<and> list_ex (\<lambda>c. c \<noteq> CHR ''.'') (basename root)
         then (root, drop (length root) p)
         else (p, []))"

subsection \<open>Dictionaries\<close>

text \<open>A dict built by inserting the pairs in order: a key that is already present keeps
  its position and takes the new value.\<close>

definition py_dict :: "('k \<times> 'v) list \<Rightarrow> ('k \<times> 'v) list" where
  "py_dict kvs = foldl (\<lambda>d kv. AList.update (fst kv) (snd kv) d) [] kvs"

subsection \<open>File system and heap\<close>

text \<open>\<open>path_under d p\<close>: the path \<open>p\<close> is the directory \<open>d\<close> or lies below it.\<close>

definition path_under :: "string \<Rightarrow> string \<Rightarrow> bool" where
  "path_under d p = (p = d \<or> prefix (d @ ''/'') p)"

text \<open>\<^verbatim>\<open>tempfile.mkdtemp()\<close>: a directory named from a counter, so that two calls give
  two names. Failures of the operating system are not modelled.\<close>

definition mkdtemp :: "world \<Rightarrow> string \<times> world" where
  "mkdtemp s =
     (let tmp_dir = ''/tmp/tmp'' @ dec (tmp_seq s)
      in (tmp_dir, s\<lparr>dirs := dirs s @ [tmp_dir], tmp_seq := Suc (tmp_seq s)\<rparr>))"

definition mkdir :: "string \<Rightarrow> world \<Rightarrow> world" where
  "mkdir p s = s\<lparr>dirs := dirs s @ [p]\<rparr>"

definition rmtree :: "string \<Rightarrow> world \<Rightarrow> world" where
  "rmtree d s =
     s\<lparr>dirs := filter (\<lambda>p. \<not> path_under d p) (dirs s),
       files := filter (\<lambda>pc. \<not> path_under d (fst pc)) (files s)\<rparr>"

definition read_file :: "world \<Rightarrow> string \<Rightarrow> content option" where
  "read_file s p = map_of (files s) p"

definition write_file :: "string \<Rightarrow> content \<Rightarrow> world \<Rightarrow> world" where
  "write_file p c s = s\<lparr>files := AList.update p c (files s)\<rparr>"

text \<open>A further \<^verbatim>\<open>write\<close> on a file that is open for writing.\<close>

definition append_file :: "string \<Rightarrow> string \<Rightarrow> world \<Rightarrow> world" where
  "append_file p txt s =
     (case read_file s p of
        Some (Bytes b) \<Rightarrow> write_file p (Bytes (b @ txt)) s
      | _ \<Rightarrow> write_file p (Bytes txt) s)"

text \<open>\<^verbatim>\<open>dict(row)\<close>: a new object with the entries of the row. A reference outside the
  heap cannot arise in Python; the model reports it as an error to stay total.\<close>

definition dict_copy :: "ref \<Rightarrow> world \<Rightarrow> (error + ref) \<times> world" where
  "dict_copy a s =
     (if a < length (heap s)
      then (Inr (length (heap s)), s\<lparr>heap := heap s @ [heap s ! a]\<rparr>)
      else (Inl (ReferenceError a), s))"

section \<open>The renderer\<close>

definition html_header :: "string \<Rightarrow> string \<Rightarrow> string" where
  \<open>html_header title lang =
     ''<!DOCTYPE html>\<newline><html lang="'' @ lang @ ''">\<newline><head>\<newline>     <meta charset="utf-8">\<newline>     <title>''
       @ title @ ''</title>\<newline></head>\<newline>''\<close>

definition html_footer :: string where
  "html_footer = ''\<newline></html>\<newline>''"

definition files_to_vfs :: "file_version list \<Rightarrow> Vfs" where
  "files_to_vfs fs = py_dict (map (\<lambda>file_version. (file_name (pfile file_version), file_version)) fs)"

fun find_main :: "file_version list \<Rightarrow> file_version option" where
  "find_main [] = None"
| "find_main (file_version # rest) =
     (if type (pfile file_version) = Main then Some file_version else find_main rest)"

text \<open>The dict comprehension of \<^verbatim>\<open>find_lookup_tables\<close>, with the dict built so far as
  accumulator; \<^verbatim>\<open>make_lut\<close> may raise.\<close>

fun lookup_tables_from ::
  "('tpl, 'lut, 'css) engine \<Rightarrow> (string \<times> 'lut) list \<Rightarrow> file_version list
     \<Rightarrow> error + (string \<times> 'lut) list" where
  "lookup_tables_from eng acc [] = Inr acc"
| "lookup_tables_from eng acc (file_version # rest) =
     (if type (pfile file_version) = CSV
      then (case make_lut eng (data file_version) ''utf-8'' of
              Inl e \<Rightarrow> Inl e
            | Inr lut \<Rightarrow>
                lookup_tables_from eng
                  (AList.update (make_name eng (file_name (pfile file_version))) lut acc) rest)
      else lookup_tables_from eng acc rest)"

definition find_lookup_tables ::
  "('tpl, 'lut, 'css) engine \<Rightarrow> file_version list \<Rightarrow> error + (string \<times> 'lut) list" where
  "find_lookup_tables eng fs = lookup_tables_from eng [] fs"

text \<open>The context manager \<^verbatim>\<open>make_temp_dir\<close>: the \<^verbatim>\<open>finally\<close> clause runs whether the
  body returns or raises.\<close>

definition make_temp_dir ::
  "bool \<Rightarrow> (string \<Rightarrow> world \<Rightarrow> (error + 'a) \<times> world) \<Rightarrow> world \<Rightarrow> (error + 'a) \<times> world" where
  "make_temp_dir keep body s =
     (case mkdtemp s of (tmp_dir, s1) \<Rightarrow>
        (case body tmp_dir s1 of (r, s2) \<Rightarrow>
           (r, if \<not> keep then rmtree tmp_dir s2 else s2)))"

subsection \<open>The template compiler\<close>

definition tc_do_lookup :: "Vfs \<Rightarrow> string \<Rightarrow> (string \<times> string) option" where
  "tc_do_lookup vfs name =
     (case map_of vfs name of
        None \<Rightarrow> None
      | Some the_file \<Rightarrow>
          if type (pfile the_file) \<notin> {Main, HTML, CSS} then None
          else Some (data the_file, name))"

text \<open>\<^verbatim>\<open>jinja2.FunctionLoader.get_source\<close>: a load function that returns \<^verbatim>\<open>None\<close> makes
  the loader raise \<^verbatim>\<open>TemplateNotFound\<close>.\<close>

definition get_source :: "Vfs \<Rightarrow> string \<Rightarrow> error + string" where
  "get_source vfs name =
     (case tc_do_lookup vfs name of
        None \<Rightarrow> Inl (TemplateNotFound name)
      | Some rv \<Rightarrow> Inr (fst rv))"

definition get_template :: "('tpl, 'lut, 'css) engine \<Rightarrow> Vfs \<Rightarrow> string \<Rightarrow> error + 'tpl" where
  "get_template eng vfs name =
     (case get_source vfs name of
        Inl e \<Rightarrow> Inl e
      | Inr src \<Rightarrow> from_string eng src)"

text \<open>\<^verbatim>\<open>template.render(row=row, **lookups)\<close>: a lookup table named \<^verbatim>\<open>row\<close> is a second
  value for the same keyword. The render may change the dict it is given.\<close>

definition render ::
  "('tpl, 'lut, 'css) engine \<Rightarrow> Vfs \<Rightarrow> 'tpl \<Rightarrow> ref option \<Rightarrow> (string \<times> 'lut) list
     \<Rightarrow> world \<Rightarrow> (error + string) \<times> world" where
  "render eng vfs tpl row lookups s =
     (if ''row'' \<in> set (map fst lookups)
      then (Inl (TypeError ''got multiple values for keyword argument row''), s)
      else (case row of
              None \<Rightarrow> (template_render eng (get_source vfs) tpl None lookups, s)
            | Some a \<Rightarrow>
                if a < length (heap s)
                then (template_render eng (get_source vfs) tpl (Some (heap s ! a)) lookups,
                      s\<lparr>heap := (heap s)[a := template_effect eng (get_source vfs) tpl (heap s ! a) lookups]\<rparr>)
                else (Inl (ReferenceError a), s)))"

text \<open>The loop of the split branch, with the running index and the list \<^verbatim>\<open>sources\<close>.\<close>

fun compile_split ::
  "('tpl, 'lut, 'css) engine \<Rightarrow> Vfs \<Rightarrow> 'tpl \<Rightarrow> 'tpl \<Rightarrow> (string \<times> 'lut) list \<Rightarrow> string
     \<Rightarrow> nat \<Rightarrow> DataSet \<Rightarrow> FileWithData list \<Rightarrow> world \<Rightarrow> (error + FileWithData list) \<times> world" where
  "compile_split eng vfs tpl title_pattern lookups src_dir idx [] sources s = (Inr sources, s)"
| "compile_split eng vfs tpl title_pattern lookups src_dir idx (row # rest) sources s =
     (case dict_copy row s of
        (Inl e, s1) \<Rightarrow> (Inl e, s1)
      | (Inr row_copy, s1) \<Rightarrow>
     (case render eng vfs title_pattern (Some row_copy) [] s1 of
        (Inl e, s2) \<Rightarrow> (Inl e, s2)
      | (Inr title, s2) \<Rightarrow>
     (let src_name = path_join src_dir (format_03d idx @ ''.html'');
          s3 = write_file src_name (Bytes (html_header title ''fi'')) s2
      in case render eng vfs tpl (Some row_copy) lookups s3 of
           (Inl e, s4) \<Rightarrow> (Inl e, s4)
         | (Inr body, s4) \<Rightarrow>
             compile_split eng vfs tpl title_pattern lookups src_dir (Suc idx) rest
               (sources @ [(src_name, Some row_copy)])
               (append_file src_name html_footer (append_file src_name body s4)))))"

text \<open>The loop over the rows in the merged branch.\<close>

fun compile_rows ::
  "('tpl, 'lut, 'css) engine \<Rightarrow> Vfs \<Rightarrow> 'tpl \<Rightarrow> (string \<times> 'lut) list \<Rightarrow> string
     \<Rightarrow> DataSet \<Rightarrow> world \<Rightarrow> (error + unit) \<times> world" where
  "compile_rows eng vfs tpl lookups src_name [] s = (Inr (), s)"
| "compile_rows eng vfs tpl lookups src_name (row # rest) s =
     (case dict_copy row s of
        (Inl e, s1) \<Rightarrow> (Inl e, s1)
      | (Inr row_copy, s1) \<Rightarrow>
     (case render eng vfs tpl (Some row_copy) lookups s1 of
        (Inl e, s2) \<Rightarrow> (Inl e, s2)
      | (Inr body, s2) \<Rightarrow>
          compile_rows eng vfs tpl lookups src_name rest (append_file src_name body s2)))"

definition compile_merged ::
  "('tpl, 'lut, 'css) engine \<Rightarrow> Vfs \<Rightarrow> 'tpl \<Rightarrow> 'tpl \<Rightarrow> (string \<times> 'lut) list \<Rightarrow> string
     \<Rightarrow> DataSet \<Rightarrow> world \<Rightarrow> (error + FileWithData list) \<times> world" where
  "compile_merged eng vfs tpl title_pattern lookups src_dir dataset s =
     (case (case dataset of
              [row] \<Rightarrow> (case dict_copy row s of
                          (Inl e, s1) \<Rightarrow> (Inl e, s1)
                        | (Inr a, s1) \<Rightarrow> (Inr (Some a), s1))
            | _ \<Rightarrow> (Inr None, s)) of
        (Inl e, s1) \<Rightarrow> (Inl e, s1)
      | (Inr row_copy, s1) \<Rightarrow>
     (case (if dataset \<noteq> [] then render eng vfs title_pattern row_copy [] s1
            else (Inr [], s1)) of
        (Inl e, s2) \<Rightarrow> (Inl e, s2)
      | (Inr title, s2) \<Rightarrow>
     (let src_name = path_join src_dir ''master.html'';
          s3 = write_file src_name (Bytes (html_header title ''fi'')) s2
      in case compile_rows eng vfs tpl lookups src_name dataset s3 of
           (Inl e, s4) \<Rightarrow> (Inl e, s4)
         | (Inr u, s4) \<Rightarrow> (Inr [(src_name, row_copy)], append_file src_name html_footer s4))))"

definition tc_compile ::
  "('tpl, 'lut, 'css) engine \<Rightarrow> Vfs \<Rightarrow> string \<Rightarrow> string \<Rightarrow> DataSet \<Rightarrow> string \<Rightarrow> bool
     \<Rightarrow> world \<Rightarrow> (error + FileWithData list) \<times> world" where
  "tc_compile eng vfs main_file_name src_dir dataset title_pattern split_output s =
     (case find_lookup_tables eng (map snd vfs) of
        Inl e \<Rightarrow> (Inl e, s)
      | Inr lookups \<Rightarrow>
     (case get_template eng vfs main_file_name of
        Inl e \<Rightarrow> (Inl e, s)
      | Inr tpl \<Rightarrow>
     (case from_string eng title_pattern of
        Inl e \<Rightarrow> (Inl e, s)
      | Inr title_tpl \<Rightarrow>
          if split_output
          then compile_split eng vfs tpl title_tpl lookups src_dir 1 dataset [] s
          else compile_merged eng vfs tpl title_tpl lookups src_dir dataset s)))"

subsection \<open>The HTML compiler\<close>

definition find_stylesheets :: "file_version list \<Rightarrow> file_version list" where
  "find_stylesheets fs = filter (\<lambda>file_version. type (pfile file_version) = CSS) fs"

definition hc_do_lookup :: "Vfs \<Rightarrow> string \<Rightarrow> error + fetch_result" where
  "hc_do_lookup vfs url =
     (let file_url = removeprefix url LOCAL_FILE_URI_PREFIX
      in if file_url = url then Inl (ValueError ''Invalid URL to look up for'')
         else (case map_of vfs file_url of
                 None \<Rightarrow> Inl KeyError
               | Some the_file \<Rightarrow>
                   Inr \<lparr>file_obj = data the_file, redirected_url = file_url\<rparr>))"

fun parse_sheets ::
  "('tpl, 'lut, 'css) engine \<Rightarrow> Vfs \<Rightarrow> file_version list \<Rightarrow> error + 'css list" where
  "parse_sheets eng vfs [] = Inr []"
| "parse_sheets eng vfs (sheet_file # rest) =
     (case weasy_css eng (hc_do_lookup vfs) (data sheet_file) of
        Inl e \<Rightarrow> Inl e
      | Inr sheet \<Rightarrow>
          (case parse_sheets eng vfs rest of
             Inl e \<Rightarrow> Inl e
           | Inr sheets \<Rightarrow> Inr (sheet # sheets)))"

text \<open>The loop of \<^verbatim>\<open>_HtmlCompiler.compile\<close>; WeasyPrint reads the source file.\<close>

fun hc_loop ::
  "('tpl, 'lut, 'css) engine \<Rightarrow> Vfs \<Rightarrow> 'css list \<Rightarrow> string \<Rightarrow> FileWithData list
     \<Rightarrow> FileWithData list \<Rightarrow> world \<Rightarrow> (error + FileWithData list) \<times> world" where
  "hc_loop eng vfs parsed_sheets result_dir [] results s = (Inr results, s)"
| "hc_loop eng vfs parsed_sheets result_dir ((source, row) # rest) results s =
     (case read_file s source of
        Some (Bytes html) \<Rightarrow>
          (case write_pdf eng (hc_do_lookup vfs) html parsed_sheets of
             Inl e \<Rightarrow> (Inl e, s)
           | Inr pdf \<Rightarrow>
               (let dst_base = fst (splitext (basename source));
                    dst_name = path_join result_dir (dst_base @ ''.pdf'')
                in hc_loop eng vfs parsed_sheets result_dir rest (results @ [(dst_name, row)])
                     (write_file dst_name (Bytes pdf) s)))
      | _ \<Rightarrow> (Inl (FileNotFoundError source), s))"

definition hc_compile ::
  "('tpl, 'lut, 'css) engine \<Rightarrow> Vfs \<Rightarrow> FileWithData list \<Rightarrow> string
     \<Rightarrow> world \<Rightarrow> (error + FileWithData list) \<times> world" where
  "hc_compile eng vfs sources result_dir s =
     (case parse_sheets eng vfs (find_stylesheets (map snd vfs)) of
        Inl e \<Rightarrow> (Inl e, s)
      | Inr parsed_sheets \<Rightarrow> hc_loop eng vfs parsed_sheets result_dir sources [] s)"

subsection \<open>Packaging and the render operation\<close>

text \<open>
  Modelled from the spec: \<^verbatim>\<open>NameFactory.make\<close> of \<^verbatim>\<open>emprinten/files.py\<close>. The naming
  template is evaluated against \<^verbatim>\<open>{row: <row>}\<close>; the fallback is taken when the template
  is absent or yields no usable name.
\<close>

definition NameFactory_make ::
  "('tpl, 'lut, 'css) engine \<Rightarrow> Vfs \<Rightarrow> 'tpl option \<Rightarrow> ref option \<Rightarrow> string
     \<Rightarrow> world \<Rightarrow> (error + string) \<times> world" where
  "NameFactory_make eng vfs name_tpl row fallback s =
     (case name_tpl of
        None \<Rightarrow> (Inr fallback, s)
      | Some tpl \<Rightarrow>
          (case render eng vfs tpl row [] s of
             (Inl e, s1) \<Rightarrow> (Inl e, s1)
           | (Inr name, s1) \<Rightarrow> (Inr (if usable_name eng name then name else fallback), s1)))"

text \<open>\<^verbatim>\<open>z.write(pdf_name, arcname=arc_name)\<close> on the archive stored at \<open>z_name\<close>.\<close>

definition zip_write :: "string \<Rightarrow> string \<Rightarrow> string \<Rightarrow> world \<Rightarrow> (error + unit) \<times> world" where
  "zip_write z_name pdf_name arc_name s =
     (case read_file s pdf_name of
        None \<Rightarrow> (Inl (FileNotFoundError pdf_name), s)
      | Some c \<Rightarrow>
          (case read_file s z_name of
             Some (Zip entries) \<Rightarrow> (Inr (), write_file z_name (Zip (entries @ [(arc_name, c)])) s)
           | _ \<Rightarrow> (Inr (), write_file z_name (Zip [(arc_name, c)]) s)))"

fun zip_results ::
  "('tpl, 'lut, 'css) engine \<Rightarrow> Vfs \<Rightarrow> 'tpl option \<Rightarrow> string \<Rightarrow> FileWithData list
     \<Rightarrow> world \<Rightarrow> (error + unit) \<times> world" where
  "zip_results eng vfs name_tpl z_name [] s = (Inr (), s)"
| "zip_results eng vfs name_tpl z_name ((pdf_name, row) # rest) s =
     (case NameFactory_make eng vfs name_tpl row (basename pdf_name) s of
        (Inl e, s1) \<Rightarrow> (Inl e, s1)
      | (Inr arc_name, s1) \<Rightarrow>
          (case zip_write z_name pdf_name arc_name s1 of
             (Inl e, s2) \<Rightarrow> (Inl e, s2)
           | (Inr u, s2) \<Rightarrow> zip_results eng vfs name_tpl z_name rest s2))"

text \<open>\<^verbatim>\<open>FileResponse(open(path, "rb"), ...)\<close>: the response streams what the file holds.\<close>

definition file_response ::
  "string \<Rightarrow> string \<Rightarrow> string option \<Rightarrow> world \<Rightarrow> (error + response) \<times> world" where
  "file_response path ctype fname s =
     (case read_file s path of
        None \<Rightarrow> (Inl (FileNotFoundError path), s)
      | Some c \<Rightarrow> (Inr (FileResponse c ctype fname), s))"

text \<open>Lines 130 to 154 of \<^verbatim>\<open>render_pdf\<close>: from the compiled results to the response.\<close>

definition respond ::
  "('tpl, 'lut, 'css) engine \<Rightarrow> Vfs \<Rightarrow> 'tpl option \<Rightarrow> string \<Rightarrow> FileWithData list \<Rightarrow> bool
     \<Rightarrow> world \<Rightarrow> (error + response) \<times> world" where
  "respond eng vfs name_tpl tmpdir results return_archive s =
     (if return_archive
      then (let z_name = path_join tmpdir ''result.zip''
            in case zip_results eng vfs name_tpl z_name results (write_file z_name (Zip []) s) of
                 (Inl e, s1) \<Rightarrow> (Inl e, s1)
               | (Inr u, s1) \<Rightarrow> file_response z_name ''application/zip'' None s1)
      else if length results > 1 then (Inr (HttpResponse [] 401), s)
      else (case results of
              (pdf_name, row) # rest \<Rightarrow>
                (case NameFactory_make eng vfs name_tpl row ''result.pdf'' s of
                   (Inl e, s1) \<Rightarrow> (Inl e, s1)
                 | (Inr fname, s1) \<Rightarrow>
                     file_response pdf_name ''application/pdf'' (Some fname) s1)
            | [] \<Rightarrow> (Inr (HttpResponse [] 201), s)))"

text \<open>Lines 115 to 126: the two compilers, run inside the temporary directory.\<close>

definition compile_results ::
  "('tpl, 'lut, 'css) engine \<Rightarrow> Vfs \<Rightarrow> file_version \<Rightarrow> string \<Rightarrow> DataSet \<Rightarrow> bool \<Rightarrow> string
     \<Rightarrow> world \<Rightarrow> (error + FileWithData list) \<times> world" where
  "compile_results eng vfs main title_pattern dataset return_archive tmpdir s =
     (let src_dir = path_join tmpdir ''src'';
          result_dir = path_join tmpdir ''result'';
          s1 = mkdir result_dir (mkdir src_dir s)
      in case tc_compile eng vfs (file_name (pfile main)) src_dir dataset title_pattern
                return_archive s1 of
           (Inl e, s2) \<Rightarrow> (Inl e, s2)
         | (Inr sources, s2) \<Rightarrow> hc_compile eng vfs sources result_dir s2)"

text \<open>Line 127: \<^verbatim>\<open>env.from_string(filename_pattern) if filename_pattern else None\<close>; the
  condition is false for \<^verbatim>\<open>None\<close> and for the empty string.\<close>

definition name_template ::
  "('tpl, 'lut, 'css) engine \<Rightarrow> string option \<Rightarrow> error + 'tpl option" where
  "name_template eng filename_pattern =
     (case filename_pattern of
        None \<Rightarrow> Inr None
      | Some pat \<Rightarrow>
          if pat = [] then Inr None
          else (case from_string eng pat of
                  Inl e \<Rightarrow> Inl e
                | Inr t \<Rightarrow> Inr (Some t)))"

text \<open>The body of the \<^verbatim>\<open>with\<close> block.\<close>

definition render_in_tmpdir ::
  "('tpl, 'lut, 'css) engine \<Rightarrow> Vfs \<Rightarrow> file_version \<Rightarrow> string option \<Rightarrow> string \<Rightarrow> DataSet
     \<Rightarrow> bool \<Rightarrow> string \<Rightarrow> world \<Rightarrow> (error + response) \<times> world" where
  "render_in_tmpdir eng vfs main filename_pattern title_pattern dataset return_archive tmpdir s =
     (case compile_results eng vfs main title_pattern dataset return_archive tmpdir s of
        (Inl e, s1) \<Rightarrow> (Inl e, s1)
      | (Inr results, s1) \<Rightarrow>
          (case name_template eng filename_pattern of
             Inl e \<Rightarrow> (Inl e, s1)
           | Inr name_tpl \<Rightarrow> respond eng vfs name_tpl tmpdir results return_archive s1))"

definition render_pdf ::
  "('tpl, 'lut, 'css) engine \<Rightarrow> file_version list \<Rightarrow> string option \<Rightarrow> string \<Rightarrow> DataSet
     \<Rightarrow> bool \<Rightarrow> world \<Rightarrow> (error + response) \<times> world" where
  "render_pdf eng fs filename_pattern title_pattern dataset return_archive s =
     (case find_main fs of
        None \<Rightarrow> (Inr (HttpResponse ''Main file not found'' 404), s)
      | Some main \<Rightarrow>
          make_temp_dir False
            (render_in_tmpdir eng (files_to_vfs fs) main filename_pattern title_pattern dataset
               return_archive) s)"

section \<open>Auxiliary notions\<close>


text \<open>\<open>evolves U n s s'\<close>: from \<open>s\<close> to \<open>s'\<close> the file system has changed at most at the
  paths that satisfy \<open>U\<close>, the heap has not shrunk and its first \<open>n\<close> objects are as they
  were.\<close>

definition evolves :: "(string \<Rightarrow> bool) \<Rightarrow> nat \<Rightarrow> world \<Rightarrow> world \<Rightarrow> bool" where
  "evolves U n s s' =
     (filter (\<lambda>p. \<not> U p) (dirs s') = filter (\<lambda>p. \<not> U p) (dirs s)
      \<and> filter (\<lambda>pc. \<not> U (fst pc)) (files s') = filter (\<lambda>pc. \<not> U (fst pc)) (files s)
      \<and> tmp_seq s' = tmp_seq s
      \<and> length (heap s) \<le> length (heap s')
      \<and> take n (heap s') = take n (heap s))"

section \<open>An example engine and example inputs\<close>

definition example_engine :: "(string, string, string) engine" where
  "example_engine =
     \<lparr>from_string = (\<lambda>src. if prefix ''{%'' src then Inl (LibraryError ''syntax'') else Inr src),
      template_render = (\<lambda>ld tpl row lookups.
         Inr (tpl @ (case row of None \<Rightarrow> [] | Some r \<Rightarrow> concat (map fst r)))),
      template_effect = (\<lambda>ld tpl r lookups. r @ [(''seen'', Str tpl)]),
      make_name = takeWhile (\<lambda>c. c \<noteq> CHR ''.''),
      make_lut = (\<lambda>d enc. Inr d),
      usable_name = (\<lambda>n. n \<noteq> []),
      weasy_css = (\<lambda>fetch src. Inr src),
      write_pdf = (\<lambda>fetch html sheets. Inr (''%PDF'' @ html))\<rparr>"

definition example_file :: "string \<Rightarrow> file_type \<Rightarrow> string \<Rightarrow> file_version" where
  "example_file n t d = \<lparr>pfile = \<lparr>file_name = n, type = t\<rparr>, data = d\<rparr>"

definition example_world :: world where
  "example_world =
     \<lparr>dirs = [''/tmp''], files = [], tmp_seq = 7,
      heap = [[(''a'', Str ''1'')], [(''b'', Str ''2'')]]\<rparr>"

section \<open>The Virtual File Set and the lookup tables\<close>

lemma map_of_foldl_update:
  "map_of (foldl (\<lambda>d kv. AList.update (fst kv) (snd kv) d) acc kvs) = map_of (rev kvs @ acc)"
proof (induction kvs arbitrary: acc)
  case Nil
  show ?case by simp
next
  case (Cons kv kvs)
  have "map_of (AList.update (fst kv) (snd kv) acc) = map_of (kv # acc)"
    by (rule ext) (simp add: update_conv')
  then have "map_of (rev kvs @ AList.update (fst kv) (snd kv) acc) = map_of (rev kvs @ kv # acc)"
    by (simp add: map_of_append)
  with Cons show ?case by simp
qed

lemma map_of_py_dict: "map_of (py_dict kvs) = map_of (rev kvs)"
  by (simp add: py_dict_def map_of_foldl_update)

lemma map_of_keyed_find:
  "map_of (map (\<lambda>x. (f x, x)) xs) k = find (\<lambda>x. f x = k) xs"
  by (induction xs) auto

lemma files_to_vfs_lookup:
  "map_of (files_to_vfs fs) name = find (\<lambda>fv. file_name (pfile fv) = name) (rev fs)"
  by (simp add: files_to_vfs_def map_of_py_dict rev_map map_of_keyed_find)

lemma find_snoc:
  "find P (xs @ [x]) = (case find P xs of Some y \<Rightarrow> Some y | None \<Rightarrow> if P x then Some x else None)"
  by (induction xs) auto

lemma lookup_tables_from_lookup:
  "lookup_tables_from eng acc fs = Inr luts \<Longrightarrow>
   map_option Inr (map_of luts key) =
     (case find (\<lambda>fv. type (pfile fv) = CSV \<and> make_name eng (file_name (pfile fv)) = key) (rev fs) of
        Some fv \<Rightarrow> Some (make_lut eng (data fv) ''utf-8'')
      | None \<Rightarrow> map_option Inr (map_of acc key))"
proof (induction fs arbitrary: acc)
  case Nil
  then show ?case by simp
next
  case (Cons fv rest)
  show ?case
  proof (cases "type (pfile fv) = CSV")
    case False
    with Cons.prems have "lookup_tables_from eng acc rest = Inr luts" by simp
    from Cons.IH [OF this] False show ?thesis
      by (simp add: find_snoc split: option.splits)
  next
    case True
    with Cons.prems obtain lut where
      lut: "make_lut eng (data fv) ''utf-8'' = Inr lut" and
      rest: "lookup_tables_from eng (AList.update (make_name eng (file_name (pfile fv))) lut acc) rest = Inr luts"
      by (auto split: sum.splits)
    from Cons.IH [OF rest] True lut show ?thesis
      by (simp add: find_snoc update_conv' split: option.splits)
  qed
qed

lemma lookup_tables_from_total:
  "\<forall>fv \<in> set fs. type (pfile fv) = CSV \<longrightarrow> (\<exists>lut. make_lut eng (data fv) ''utf-8'' = Inr lut) \<Longrightarrow>
   \<exists>luts. lookup_tables_from eng acc fs = Inr luts"
proof (induction fs arbitrary: acc)
  case Nil
  show ?case by simp
next
  case (Cons fv rest)
  then show ?case by (cases "type (pfile fv) = CSV") auto
qed

text \<open>
  Claim C7. The Virtual File Set maps every file name to the last file version of that
  name in iteration order. The lookup tables map every normalized name to the parsed
  table of the last CSV-typed file with that normalized name. Building the tables raises
  only when \<^verbatim>\<open>make_lut\<close> does: two entries with the same key are no error.
\<close>

theorem later_entry_wins:
  "map_of (files_to_vfs fs) name = find (\<lambda>fv. file_name (pfile fv) = name) (rev fs)
   \<and> (find_lookup_tables eng fs = Inr luts \<longrightarrow>
        map_option Inr (map_of luts key) =
          map_option (\<lambda>fv. make_lut eng (data fv) ''utf-8'')
            (find (\<lambda>fv. type (pfile fv) = CSV \<and> make_name eng (file_name (pfile fv)) = key) (rev fs)))
   \<and> ((\<forall>fv \<in> set fs. type (pfile fv) = CSV \<longrightarrow> (\<exists>lut. make_lut eng (data fv) ''utf-8'' = Inr lut))
        \<longrightarrow> (\<exists>luts. find_lookup_tables eng fs = Inr luts))"
proof (intro conjI impI)
  show "map_of (files_to_vfs fs) name = find (\<lambda>fv. file_name (pfile fv) = name) (rev fs)"
    by (rule files_to_vfs_lookup)
next
  assume "find_lookup_tables eng fs = Inr luts"
  then have "lookup_tables_from eng [] fs = Inr luts"
    by (simp add: find_lookup_tables_def)
  from lookup_tables_from_lookup [OF this, of key]
  show "map_option Inr (map_of luts key) =
          map_option (\<lambda>fv. make_lut eng (data fv) ''utf-8'')
            (find (\<lambda>fv. type (pfile fv) = CSV \<and> make_name eng (file_name (pfile fv)) = key) (rev fs))"
    by (simp split: option.splits)
next
  assume "\<forall>fv \<in> set fs. type (pfile fv) = CSV \<longrightarrow> (\<exists>lut. make_lut eng (data fv) ''utf-8'' = Inr lut)"
  then show "\<exists>luts. find_lookup_tables eng fs = Inr luts"
    unfolding find_lookup_tables_def by (rule lookup_tables_from_total)
qed

theorem later_entry_wins_witness:
  "map_of (files_to_vfs [example_file ''a.csv'' CSV ''old'', example_file ''m'' Main ''M'',
                         example_file ''a.csv'' CSV ''new'']) ''a.csv''
     = Some (example_file ''a.csv'' CSV ''new'')
   \<and> find_lookup_tables example_engine
        [example_file ''a.csv'' CSV ''old'', example_file ''m'' Main ''M'',
         example_file ''a.txt'' CSV ''new''] = Inr [(''a'', ''new'')]
   \<and> map_of [(''a'', ''new'')] ''a'' = Some ''new''"
  using later_entry_wins [of "[example_file ''a.csv'' CSV ''old'', example_file ''m'' Main ''M'',
                         example_file ''a.csv'' CSV ''new'']" "''a.csv''" example_engine "[]" "''a''"]
  by (simp add: example_file_def example_engine_def find_lookup_tables_def)

section \<open>The URL fetcher of the HTML compiler\<close>

text \<open>
  Claim C4. The fetcher is a function of the URL and the Virtual File Set: a URL that
  does not begin with \<^verbatim>\<open>file:///\<close> fails with the "invalid URL" \<^verbatim>\<open>ValueError\<close>; otherwise
  the rest of the URL is looked up in the Virtual File Set, failing with \<^verbatim>\<open>KeyError\<close>
  (resource not found) when it is absent and returning the content of the matching
  file version when it is present.
\<close>

theorem hc_do_lookup_contract:
  "LOCAL_FILE_URI_PREFIX = ''file:///''
   \<and> hc_do_lookup vfs url =
     (if \<not> prefix LOCAL_FILE_URI_PREFIX url then Inl (ValueError ''Invalid URL to look up for'')
      else (case map_of vfs (drop (length LOCAL_FILE_URI_PREFIX) url) of
              None \<Rightarrow> Inl KeyError
            | Some the_file \<Rightarrow>
                Inr \<lparr>file_obj = data the_file,
                     redirected_url = drop (length LOCAL_FILE_URI_PREFIX) url\<rparr>))"
proof (intro conjI)
  show "LOCAL_FILE_URI_PREFIX = ''file:///''"
    by (simp add: LOCAL_FILE_URI_PREFIX_def)
next
  have pos: "0 < length LOCAL_FILE_URI_PREFIX"
    by (simp add: LOCAL_FILE_URI_PREFIX_def)
  show "hc_do_lookup vfs url =
     (if \<not> prefix LOCAL_FILE_URI_PREFIX url then Inl (ValueError ''Invalid URL to look up for'')
      else (case map_of vfs (drop (length LOCAL_FILE_URI_PREFIX) url) of
              None \<Rightarrow> Inl KeyError
            | Some the_file \<Rightarrow>
                Inr \<lparr>file_obj = data the_file,
                     redirected_url = drop (length LOCAL_FILE_URI_PREFIX) url\<rparr>))"
  proof (cases "prefix LOCAL_FILE_URI_PREFIX url")
    case False
    then show ?thesis
      by (simp add: hc_do_lookup_def removeprefix_def)
  next
    case True
    then have "length LOCAL_FILE_URI_PREFIX \<le> length url"
      by (rule prefix_length_le)
    with pos have "length url - length LOCAL_FILE_URI_PREFIX < length url"
      by arith
    then have "length (drop (length LOCAL_FILE_URI_PREFIX) url) < length url"
      by (simp only: length_drop)
    then have "drop (length LOCAL_FILE_URI_PREFIX) url \<noteq> url"
      by (metis less_irrefl)
    with True show ?thesis
      by (simp add: hc_do_lookup_def removeprefix_def Let_def)
  qed
qed

section \<open>The loader of the template compiler\<close>

lemma tc_compile_not_found:
  assumes "get_source vfs main_file_name = Inl (TemplateNotFound main_file_name)"
  shows "tc_compile eng vfs main_file_name src_dir dataset title_pattern split_output s =
           (Inl (case find_lookup_tables eng (map snd vfs) of
                   Inl e \<Rightarrow> e
                 | Inr luts \<Rightarrow> TemplateNotFound main_file_name), s)"
  using assms by (simp add: tc_compile_def get_template_def split: sum.splits)

lemma fst_make_temp_dir:
  "fst (make_temp_dir keep body s) = fst (body (fst (mkdtemp s)) (snd (mkdtemp s)))"
  by (simp add: make_temp_dir_def split: prod.splits)

text \<open>
  Claim C5. The loader of the template compiler resolves a name against the Virtual File
  Set only: an entry of type Main, HTML or CSS resolves to its content; a name that is
  absent, or whose entry has any other type, is \<^verbatim>\<open>TemplateNotFound\<close>. When the Main template
  does not resolve, the compiler raises before it writes anything and the render call
  ends in that exception (or in the one \<^verbatim>\<open>make_lut\<close> raised before it), never in a response.
\<close>

theorem template_lookup_contract:
  "get_source vfs name =
     (case map_of vfs name of
        None \<Rightarrow> Inl (TemplateNotFound name)
      | Some the_file \<Rightarrow>
          if type (pfile the_file) \<in> {Main, HTML, CSS} then Inr (data the_file)
          else Inl (TemplateNotFound name))
   \<and> (get_source vfs name = Inl (TemplateNotFound name) \<longrightarrow>
        tc_compile eng vfs name src_dir dataset title_pattern split_output s =
          (Inl (case find_lookup_tables eng (map snd vfs) of
                  Inl e \<Rightarrow> e
                | Inr luts \<Rightarrow> TemplateNotFound name), s))
   \<and> (find_main fs = Some main \<longrightarrow>
        get_source (files_to_vfs fs) (file_name (pfile main)) =
          Inl (TemplateNotFound (file_name (pfile main))) \<longrightarrow>
        fst (render_pdf eng fs filename_pattern title_pattern dataset return_archive s) =
          Inl (case find_lookup_tables eng (map snd (files_to_vfs fs)) of
                 Inl e \<Rightarrow> e
               | Inr luts \<Rightarrow> TemplateNotFound (file_name (pfile main))))"
proof (intro conjI impI)
  show "get_source vfs name =
     (case map_of vfs name of
        None \<Rightarrow> Inl (TemplateNotFound name)
      | Some the_file \<Rightarrow>
          if type (pfile the_file) \<in> {Main, HTML, CSS} then Inr (data the_file)
          else Inl (TemplateNotFound name))"
    by (simp add: get_source_def tc_do_lookup_def split: option.splits)
next
  assume "get_source vfs name = Inl (TemplateNotFound name)"
  then show "tc_compile eng vfs name src_dir dataset title_pattern split_output s =
          (Inl (case find_lookup_tables eng (map snd vfs) of
                  Inl e \<Rightarrow> e
                | Inr luts \<Rightarrow> TemplateNotFound name), s)"
    by (rule tc_compile_not_found)
next
  assume main: "find_main fs = Some main"
    and nf: "get_source (files_to_vfs fs) (file_name (pfile main)) =
          Inl (TemplateNotFound (file_name (pfile main)))"
  show "fst (render_pdf eng fs filename_pattern title_pattern dataset return_archive s) =
          Inl (case find_lookup_tables eng (map snd (files_to_vfs fs)) of
                 Inl e \<Rightarrow> e
               | Inr luts \<Rightarrow> TemplateNotFound (file_name (pfile main)))"
    by (simp add: render_pdf_def main fst_make_temp_dir render_in_tmpdir_def
        compile_results_def Let_def tc_compile_not_found [OF nf])
qed

theorem template_lookup_contract_witness:
  "get_source (files_to_vfs [example_file ''m.html'' Main ''M'', example_file ''t.csv'' CSV ''T''])
      ''t.csv'' = Inl (TemplateNotFound ''t.csv'')
   \<and> get_source (files_to_vfs [example_file ''m.html'' Main ''M'', example_file ''t.csv'' CSV ''T''])
      ''m.html'' = Inr ''M''
   \<and> tc_compile example_engine
        (files_to_vfs [example_file ''m.html'' Main ''M'', example_file ''t.csv'' CSV ''T''])
        ''t.csv'' ''/x/src'' [0] ''T'' False example_world
      = (Inl (TemplateNotFound ''t.csv''), example_world)
   \<and> find_main [example_file ''m'' Main ''M'', example_file ''m'' CSV ''T'']
      = Some (example_file ''m'' Main ''M'')
   \<and> fst (render_pdf example_engine [example_file ''m'' Main ''M'', example_file ''m'' CSV ''T'']
        None ''T'' [0] False example_world) = Inl (TemplateNotFound ''m'')"
proof -
  let ?fs1 = "[example_file ''m.html'' Main ''M'', example_file ''t.csv'' CSV ''T'']"
  let ?fs2 = "[example_file ''m'' Main ''M'', example_file ''m'' CSV ''T'']"
  have vfs1: "files_to_vfs ?fs1 =
      [(''m.html'', example_file ''m.html'' Main ''M''), (''t.csv'', example_file ''t.csv'' CSV ''T'')]"
    by (simp add: files_to_vfs_def py_dict_def example_file_def)
  have vfs2: "files_to_vfs ?fs2 = [(''m'', example_file ''m'' CSV ''T'')]"
    by (simp add: files_to_vfs_def py_dict_def example_file_def)
  have a: "get_source (files_to_vfs ?fs1) ''t.csv'' = Inl (TemplateNotFound ''t.csv'')"
    unfolding vfs1 by (simp add: get_source_def tc_do_lookup_def example_file_def)
  have b: "get_source (files_to_vfs ?fs1) ''m.html'' = Inr ''M''"
    unfolding vfs1 by (simp add: get_source_def tc_do_lookup_def example_file_def)
  have c: "find_main ?fs2 = Some (example_file ''m'' Main ''M'')"
    by (simp add: example_file_def)
  have d: "get_source (files_to_vfs ?fs2) (file_name (pfile (example_file ''m'' Main ''M''))) =
      Inl (TemplateNotFound (file_name (pfile (example_file ''m'' Main ''M''))))"
    unfolding vfs2 by (simp add: get_source_def tc_do_lookup_def example_file_def)
  have l1: "find_lookup_tables example_engine (map snd (files_to_vfs ?fs1)) = Inr [(''t'', ''T'')]"
    unfolding vfs1 by (simp add: find_lookup_tables_def example_file_def example_engine_def)
  have l2: "find_lookup_tables example_engine (map snd (files_to_vfs ?fs2)) = Inr [(''m'', ''T'')]"
    unfolding vfs2 by (simp add: find_lookup_tables_def example_file_def example_engine_def)
  note inst = template_lookup_contract [of "files_to_vfs ?fs1" "''t.csv''" example_engine
      "''/x/src''" "[0]" "''T''" False example_world ?fs2 "example_file ''m'' Main ''M''" None False]
  have e: "tc_compile example_engine (files_to_vfs ?fs1) ''t.csv'' ''/x/src'' [0] ''T''
      False example_world = (Inl (TemplateNotFound ''t.csv''), example_world)"
    using inst [THEN conjunct2, THEN conjunct1, rule_format, OF a] unfolding l1 by simp
  have f: "fst (render_pdf example_engine ?fs2 None ''T'' [0] False example_world) =
      Inl (TemplateNotFound ''m'')"
    using inst [THEN conjunct2, THEN conjunct2, rule_format, OF c d] unfolding l2
    by (simp add: example_file_def)
  from a b c e f show ?thesis by simp
qed

section \<open>The response contract\<close>




section \<open>Paths\<close>

lemma dec_digits: "set (dec n) \<subseteq> set ''0123456789''"
proof (induction n rule: dec.induct)
  case (1 n)
  have d: "\<And>k. k < 10 \<Longrightarrow> ''0123456789'' ! k \<in> set ''0123456789''"
    by (rule nth_mem) simp
  show ?case
  proof (cases "n < 10")
    case True
    with d [of n] show ?thesis by (subst dec.simps) simp
  next
    case False
    have "n mod 10 < 10" by simp
    from d [OF this] 1 [OF False] False show ?thesis
      by (subst dec.simps) simp
  qed
qed

lemma dec_not_Nil: "dec n \<noteq> []"
  by (subst dec.simps) simp

lemma format_03d_digits: "set (format_03d n) \<subseteq> set ''0123456789''"
  using dec_digits [of n] by (auto simp: format_03d_def)


lemma format_03d_no_slash: "CHR ''/'' \<notin> set (format_03d n)"
  using format_03d_digits [of n] by auto




lemma basename_no_slash: "CHR ''/'' \<notin> set (basename p)"
proof
  assume "CHR ''/'' \<in> set (basename p)"
  then have "CHR ''/'' \<in> set (takeWhile (\<lambda>c. c \<noteq> CHR ''/'') (rev p))"
    by (simp add: basename_def)
  then show False by (auto dest: set_takeWhileD)
qed







lemma fst_splitext_subset: "set (fst (splitext p)) \<subseteq> set p"
  by (auto simp: splitext_def Let_def dest: in_set_takeD)

lemma path_join_plain:
  "a \<noteq> [] \<Longrightarrow> \<not> suffix ''/'' a \<Longrightarrow> \<not> prefix ''/'' b \<Longrightarrow> path_join a b = a @ ''/'' @ b"
  by (simp add: path_join_def)

lemma path_under_join:
  assumes "path_under d a" "a \<noteq> []" "\<not> suffix ''/'' a" "\<not> prefix ''/'' b"
  shows "path_under d (path_join a b)"
proof -
  have pj: "path_join a b = a @ ''/'' @ b"
    using assms by (simp add: path_join_plain)
  from assms(1) show ?thesis
    unfolding path_under_def pj
  proof
    assume "a = d"
    then show "a @ ''/'' @ b = d \<or> prefix (d @ ''/'') (a @ ''/'' @ b)" by simp
  next
    assume "prefix (d @ ''/'') a"
    then have "prefix (d @ ''/'') (a @ ''/'' @ b)" by (rule prefix_prefix)
    then show "a @ ''/'' @ b = d \<or> prefix (d @ ''/'') (a @ ''/'' @ b)" ..
  qed
qed

lemma no_slash_not_prefix: "CHR ''/'' \<notin> set b \<Longrightarrow> \<not> prefix ''/'' b"
  by (auto simp: prefix_def)

lemma html_name_ok: "CHR ''/'' \<notin> set (format_03d n @ ''.html'')"
  by (simp add: format_03d_no_slash)

lemma pdf_name_ok: "CHR ''/'' \<notin> set (fst (splitext (basename source)) @ ''.pdf'')"
  using fst_splitext_subset [of "basename source"] basename_no_slash [of source] by auto

section \<open>Effects of the primitive operations\<close>

lemma write_file_fields [simp]:
  "dirs (write_file p c s) = dirs s"
  "heap (write_file p c s) = heap s"
  "tmp_seq (write_file p c s) = tmp_seq s"
  by (simp_all add: write_file_def)

lemma files_write_file: "files (write_file p c s) = AList.update p c (files s)"
  by (simp add: write_file_def)

lemma append_file_write:
  "append_file p txt s =
     write_file p (Bytes ((case read_file s p of Some (Bytes b) \<Rightarrow> b | _ \<Rightarrow> []) @ txt)) s"
  by (simp add: append_file_def split: option.splits content.splits)

lemma append_file_fields [simp]:
  "dirs (append_file p txt s) = dirs s"
  "heap (append_file p txt s) = heap s"
  "tmp_seq (append_file p txt s) = tmp_seq s"
  by (simp_all add: append_file_write)

lemma mkdir_fields [simp]:
  "dirs (mkdir p s) = dirs s @ [p]"
  "heap (mkdir p s) = heap s"
  "files (mkdir p s) = files s"
  "tmp_seq (mkdir p s) = tmp_seq s"
  by (simp_all add: mkdir_def)

lemma read_write_file [simp]:
  "read_file (write_file p c s) q = (if q = p then Some c else read_file s q)"
  by (simp add: read_file_def files_write_file update_conv')

lemma read_append_file:
  "read_file s p = Some (Bytes b) \<Longrightarrow>
   read_file (append_file p txt s) q = (if q = p then Some (Bytes (b @ txt)) else read_file s q)"
  by (simp add: append_file_write)

lemma read_append_file_other [simp]:
  "q \<noteq> p \<Longrightarrow> read_file (append_file p txt s) q = read_file s q"
  by (simp add: append_file_write)

lemma file_names_write [simp]:
  "fst ` set (files (write_file p c s)) = insert p (fst ` set (files s))"
  by (simp add: files_write_file dom_update)

lemma file_names_append [simp]:
  "fst ` set (files (append_file p txt s)) = insert p (fst ` set (files s))"
  by (simp only: append_file_write file_names_write)

lemma read_file_heap_update [simp]: "read_file (s\<lparr>heap := h\<rparr>) p = read_file s p"
  by (simp add: read_file_def)

lemma write_file_heap_update:
  "write_file p c (s\<lparr>heap := h\<rparr>) = (write_file p c s)\<lparr>heap := h\<rparr>"
  by (simp add: write_file_def)

lemma dict_copy_Inr:
  "dict_copy a s = (Inr k, s1) \<Longrightarrow>
   a < length (heap s) \<and> k = length (heap s) \<and> s1 = s\<lparr>heap := heap s @ [heap s ! a]\<rparr>"
  by (auto simp: dict_copy_def split: if_splits)

lemma dict_copy_Inl: "dict_copy a s = (Inl e, s1) \<Longrightarrow> s1 = s"
  by (auto simp: dict_copy_def split: if_splits)

lemma dict_copy_valid:
  "a < length (heap s) \<Longrightarrow>
   dict_copy a s = (Inr (length (heap s)), s\<lparr>heap := heap s @ [heap s ! a]\<rparr>)"
  by (simp add: dict_copy_def)



lemma render_Inr_Some:
  assumes "render eng vfs tpl (Some a) lookups s = (Inr out, s1)"
  shows "a < length (heap s)" "''row'' \<notin> set (map fst lookups)"
    "template_render eng (get_source vfs) tpl (Some (heap s ! a)) lookups = Inr out"
    "s1 = s\<lparr>heap := (heap s)[a := template_effect eng (get_source vfs) tpl (heap s ! a) lookups]\<rparr>"
  using assms
  by (auto simp: render_def split: if_splits)

lemma render_Inr_None:
  assumes "render eng vfs tpl None lookups s = (Inr out, s1)"
  shows "''row'' \<notin> set (map fst lookups)"
    "template_render eng (get_source vfs) tpl None lookups = Inr out" "s1 = s"
  using assms
  by (auto simp: render_def split: if_splits)

section \<open>Frames\<close>

lemma evolves_refl [simp]: "evolves U n s s"
  by (simp add: evolves_def)

lemma evolves_trans: "evolves U n s s1 \<Longrightarrow> evolves U n s1 s2 \<Longrightarrow> evolves U n s s2"
  by (auto simp: evolves_def)

lemma evolves_length: "evolves U n s s' \<Longrightarrow> n \<le> length (heap s) \<Longrightarrow> n \<le> length (heap s')"
  by (auto simp: evolves_def)

lemma filter_update_outside:
  "\<not> P k \<Longrightarrow> filter (\<lambda>pc. P (fst pc)) (AList.update k v al) = filter (\<lambda>pc. P (fst pc)) al"
  by (induction al) auto

lemma evolves_write_file: "U p \<Longrightarrow> evolves U n s (write_file p c s)"
  using filter_update_outside [of "\<lambda>p. \<not> U p" p c "files s"]
  by (simp add: evolves_def files_write_file)

lemma evolves_append_file: "U p \<Longrightarrow> evolves U n s (append_file p txt s)"
  by (simp add: append_file_write evolves_write_file)

lemma evolves_mkdir: "U p \<Longrightarrow> evolves U n s (mkdir p s)"
  by (simp add: evolves_def)

lemma evolves_dict_copy:
  "dict_copy a s = (r, s1) \<Longrightarrow> n \<le> length (heap s) \<Longrightarrow> evolves U n s s1"
  by (auto simp: dict_copy_def evolves_def split: if_splits)

lemma evolves_render:
  assumes "render eng vfs tpl row lookups s = (r, s1)" "\<And>a. row = Some a \<Longrightarrow> n \<le> a"
  shows "evolves U n s s1"
  using assms
  by (auto simp: render_def evolves_def split: if_splits option.splits)

section \<open>Frames of the compilers\<close>

lemma not_suffix_slash_append:
  "b \<noteq> [] \<Longrightarrow> last b \<noteq> CHR ''/'' \<Longrightarrow> \<not> suffix ''/'' (a @ b)"
  by (auto simp: suffix_def) (metis last_appendR last_snoc)

lemma evolves_compile_split:
  assumes "compile_split eng vfs tpl title_pattern lookups src_dir idx rows sources s = (r, s')"
    and "\<And>b. CHR ''/'' \<notin> set b \<Longrightarrow> U (path_join src_dir b)"
    and "n \<le> length (heap s)"
  shows "evolves U n s s'"
  using assms(1,3)
proof (induction rows arbitrary: idx sources s)
  case Nil
  then show ?case by simp
next
  case (Cons row rest)
  let ?src_name = "path_join src_dir (format_03d idx @ ''.html'')"
  have un: "U ?src_name"
    by (intro assms(2) html_name_ok)
  obtain r1 s1 where dc: "dict_copy row s = (r1, s1)" by force
  from evolves_dict_copy [OF dc Cons.prems(2)] have e1: "evolves U n s s1" .
  show ?case
  proof (cases r1)
    case (Inl e)
    with dc Cons.prems(1) e1 show ?thesis by simp
  next
    case (Inr row_copy)
    from dict_copy_Inr [OF dc [unfolded Inr]] Cons.prems(2)
    have k: "n \<le> row_copy" and h1: "n \<le> length (heap s1)" by auto
    obtain r2 s2 where rt: "render eng vfs title_pattern (Some row_copy) [] s1 = (r2, s2)"
      by force
    from evolves_render [OF rt] k have e2: "evolves U n s1 s2" by simp
    show ?thesis
    proof (cases r2)
      case (Inl e)
      with dc Inr rt Cons.prems(1) evolves_trans [OF e1 e2] show ?thesis by simp
    next
      case title: (Inr title)
      let ?s3 = "write_file ?src_name (Bytes (html_header title ''fi'')) s2"
      have e3: "evolves U n s2 ?s3" using un by (rule evolves_write_file)
      obtain r4 s4 where rb: "render eng vfs tpl (Some row_copy) lookups ?s3 = (r4, s4)"
        by force
      from evolves_render [OF rb] k have e4: "evolves U n ?s3 s4" by simp
      note e14 = evolves_trans [OF evolves_trans [OF evolves_trans [OF e1 e2] e3] e4]
      show ?thesis
      proof (cases r4)
        case (Inl e)
        with dc Inr rt title rb Cons.prems(1) e14 show ?thesis by (simp add: Let_def)
      next
        case body: (Inr body)
        let ?s5 = "append_file ?src_name html_footer (append_file ?src_name body s4)"
        have e5: "evolves U n s4 ?s5"
          using un by (blast intro: evolves_trans evolves_append_file)
        note e15 = evolves_trans [OF e14 e5]
        from evolves_length [OF e15 Cons.prems(2)] have h5: "n \<le> length (heap ?s5)" .
        from dc Inr rt title rb body Cons.prems(1)
        have "compile_split eng vfs tpl title_pattern lookups src_dir (Suc idx) rest
                (sources @ [(?src_name, Some row_copy)]) ?s5 = (r, s')"
          by (simp add: Let_def)
        from Cons.IH [OF this h5] e15 show ?thesis by (rule evolves_trans [rotated])
      qed
    qed
  qed
qed

lemma evolves_compile_rows:
  assumes "compile_rows eng vfs tpl lookups src_name rows s = (r, s')"
    and "U src_name" "n \<le> length (heap s)"
  shows "evolves U n s s'"
  using assms(1,3)
proof (induction rows arbitrary: s)
  case Nil
  then show ?case by simp
next
  case (Cons row rest)
  obtain r1 s1 where dc: "dict_copy row s = (r1, s1)" by force
  from evolves_dict_copy [OF dc Cons.prems(2)] have e1: "evolves U n s s1" .
  show ?case
  proof (cases r1)
    case (Inl e)
    with dc Cons.prems(1) e1 show ?thesis by simp
  next
    case (Inr row_copy)
    from dict_copy_Inr [OF dc [unfolded Inr]] Cons.prems(2)
    have k: "n \<le> row_copy" by auto
    obtain r2 s2 where rb: "render eng vfs tpl (Some row_copy) lookups s1 = (r2, s2)"
      by force
    from evolves_render [OF rb] k have e2: "evolves U n s1 s2" by simp
    note e12 = evolves_trans [OF e1 e2]
    show ?thesis
    proof (cases r2)
      case (Inl e)
      with dc Inr rb Cons.prems(1) e12 show ?thesis by simp
    next
      case body: (Inr body)
      let ?s3 = "append_file src_name body s2"
      have "evolves U n s2 ?s3" using assms(2) by (rule evolves_append_file)
      with e12 have e13: "evolves U n s ?s3" by (rule evolves_trans)
      from evolves_length [OF e13 Cons.prems(2)] have h3: "n \<le> length (heap ?s3)" .
      from dc Inr rb body Cons.prems(1)
      have "compile_rows eng vfs tpl lookups src_name rest ?s3 = (r, s')" by simp
      from Cons.IH [OF this h3] e13 show ?thesis by (rule evolves_trans [rotated])
    qed
  qed
qed

lemma evolves_compile_merged:
  assumes "compile_merged eng vfs tpl title_pattern lookups src_dir dataset s = (r, s')"
    and "\<And>b. CHR ''/'' \<notin> set b \<Longrightarrow> U (path_join src_dir b)"
    and "n \<le> length (heap s)"
  shows "evolves U n s s'"
proof -
  let ?src_name = "path_join src_dir ''master.html''"
  have un: "U ?src_name"
    by (intro assms(2)) simp
  obtain r1 s1 where c1: "(case dataset of
              [row] \<Rightarrow> (case dict_copy row s of
                          (Inl e, s1) \<Rightarrow> (Inl e, s1)
                        | (Inr a, s1) \<Rightarrow> (Inr (Some a), s1))
            | _ \<Rightarrow> (Inr None, s)) = (r1, s1)" by force
  have e1: "evolves U n s s1" and k: "\<And>rc a. r1 = Inr rc \<Longrightarrow> rc = Some a \<Longrightarrow> n \<le> a"
    using c1 assms(3)
    by (auto split: list.splits prod.splits sum.splits
        dest!: dict_copy_Inr dict_copy_Inl simp: evolves_def)
  show ?thesis
  proof (cases r1)
    case (Inl e)
    with c1 assms(1) e1 show ?thesis by (simp add: compile_merged_def)
  next
    case (Inr row_copy)
    obtain r2 s2 where c2: "(if dataset \<noteq> [] then render eng vfs title_pattern row_copy [] s1
            else (Inr [], s1)) = (r2, s2)" by force
    have e2: "evolves U n s1 s2"
      using c2 k [OF Inr] by (auto split: if_splits intro: evolves_render)
    note e12 = evolves_trans [OF e1 e2]
    show ?thesis
    proof (cases r2)
      case (Inl e)
      with c1 Inr c2 assms(1) e12 show ?thesis by (simp add: compile_merged_def)
    next
      case title: (Inr title)
      let ?s3 = "write_file ?src_name (Bytes (html_header title ''fi'')) s2"
      have "evolves U n s2 ?s3" using un by (rule evolves_write_file)
      with e12 have e13: "evolves U n s ?s3" by (rule evolves_trans)
      from evolves_length [OF e13 assms(3)] have h3: "n \<le> length (heap ?s3)" .
      obtain r4 s4 where c4: "compile_rows eng vfs tpl lookups ?src_name dataset ?s3 = (r4, s4)"
        by force
      from evolves_compile_rows [where U = U, OF c4 un h3] e13 have e14: "evolves U n s s4"
        by (rule evolves_trans [rotated])
      show ?thesis
      proof (cases r4)
        case (Inl e)
        with c1 Inr c2 title c4 assms(1) e14 show ?thesis
          by (simp add: compile_merged_def Let_def)
      next
        case u: (Inr u)
        have "evolves U n s4 (append_file ?src_name html_footer s4)"
          using un by (rule evolves_append_file)
        with e14 have "evolves U n s (append_file ?src_name html_footer s4)"
          by (rule evolves_trans)
        with c1 Inr c2 title c4 u assms(1) show ?thesis
          by (simp add: compile_merged_def Let_def)
      qed
    qed
  qed
qed

lemma evolves_tc_compile:
  assumes "tc_compile eng vfs main_file_name src_dir dataset title_pattern split_output s = (r, s')"
    and "\<And>b. CHR ''/'' \<notin> set b \<Longrightarrow> U (path_join src_dir b)"
    and "n \<le> length (heap s)"
  shows "evolves U n s s'"
  using assms
  by (auto simp: tc_compile_def split: sum.splits if_splits
      intro: evolves_compile_split evolves_compile_merged)

lemma evolves_hc_loop:
  assumes "hc_loop eng vfs parsed_sheets result_dir sources results s = (r, s')"
    and "\<And>b. CHR ''/'' \<notin> set b \<Longrightarrow> U (path_join result_dir b)"
  shows "evolves U n s s'"
  using assms(1)
proof (induction sources arbitrary: results s)
  case Nil
  then show ?case by simp
next
  case (Cons x rest)
  obtain source row where x: "x = (source, row)" by (cases x)
  let ?dst = "path_join result_dir (fst (splitext (basename source)) @ ''.pdf'')"
  have un: "U ?dst"
    by (intro assms(2) pdf_name_ok)
  show ?case
  proof (cases "read_file s source")
    case None
    with Cons.prems x show ?thesis by simp
  next
    case (Some c)
    show ?thesis
    proof (cases c)
      case (Zip es)
      with Some Cons.prems x show ?thesis by simp
    next
      case (Bytes html)
      show ?thesis
      proof (cases "write_pdf eng (hc_do_lookup vfs) html parsed_sheets")
        case (Inl e)
        with Some Bytes Cons.prems x show ?thesis by simp
      next
        case (Inr pdf)
        let ?s1 = "write_file ?dst (Bytes pdf) s"
        have e1: "evolves U n s ?s1" using un by (rule evolves_write_file)
        from Some Bytes Inr Cons.prems x
        have "hc_loop eng vfs parsed_sheets result_dir rest (results @ [(?dst, row)]) ?s1 = (r, s')"
          by (simp add: Let_def)
        from Cons.IH [OF this] e1 show ?thesis by (rule evolves_trans [rotated])
      qed
    qed
  qed
qed

lemma evolves_hc_compile:
  assumes "hc_compile eng vfs sources result_dir s = (r, s')"
    and "\<And>b. CHR ''/'' \<notin> set b \<Longrightarrow> U (path_join result_dir b)"
  shows "evolves U n s s'"
  using assms
  by (auto simp: hc_compile_def split: sum.splits intro: evolves_hc_loop)












lemma format_03d_1000: "format_03d 1000 = ''1000''"
  by (simp add: format_03d_def dec.simps)

section \<open>One iteration of each loop\<close>

lemma compile_split_step:
  assumes "compile_split eng vfs tpl tt lk src_dir idx (row # rest) acc s = (Inr out, s')"
  obtains title body s5 where
    "row < length (heap s)"
    "template_render eng (get_source vfs) tt (Some (heap s ! row)) [] = Inr title"
    "template_render eng (get_source vfs) tpl
       (Some (template_effect eng (get_source vfs) tt (heap s ! row) [])) lk = Inr body"
    "heap s5 = heap s @ [template_effect eng (get_source vfs) tpl
       (template_effect eng (get_source vfs) tt (heap s ! row) []) lk]"
    "dirs s5 = dirs s"
    "\<And>p. read_file s5 p =
       (if p = path_join src_dir (format_03d idx @ ''.html'')
        then Some (Bytes (html_header title ''fi'' @ body @ html_footer))
        else read_file s p)"
    "fst ` set (files s5) =
       insert (path_join src_dir (format_03d idx @ ''.html'')) (fst ` set (files s))"
    "compile_split eng vfs tpl tt lk src_dir (Suc idx) rest
       (acc @ [(path_join src_dir (format_03d idx @ ''.html''), Some (length (heap s)))]) s5
     = (Inr out, s')"
proof -
  let ?name = "path_join src_dir (format_03d idx @ ''.html'')"
  let ?ld = "get_source vfs"
  from assms obtain row_copy s1 title s2 body s4 where
    dc: "dict_copy row s = (Inr row_copy, s1)" and
    rt: "render eng vfs tt (Some row_copy) [] s1 = (Inr title, s2)" and
    rb: "render eng vfs tpl (Some row_copy) lk
           (write_file ?name (Bytes (html_header title ''fi'')) s2) = (Inr body, s4)" and
    rec: "compile_split eng vfs tpl tt lk src_dir (Suc idx) rest (acc @ [(?name, Some row_copy)])
           (append_file ?name html_footer (append_file ?name body s4)) = (Inr out, s')"
    by (auto simp: Let_def split: prod.splits sum.splits)
  from dict_copy_Inr [OF dc] have
    v: "row < length (heap s)" and k: "row_copy = length (heap s)" and
    s1: "s1 = s\<lparr>heap := heap s @ [heap s ! row]\<rparr>" by auto
  let ?c0 = "heap s ! row"
  let ?c1 = "template_effect eng ?ld tt ?c0 []"
  let ?c2 = "template_effect eng ?ld tpl ?c1 lk"
  from render_Inr_Some [OF rt] have
    t: "template_render eng ?ld tt (Some ?c0) [] = Inr title" and
    s2: "s2 = s1\<lparr>heap := heap s @ [?c1]\<rparr>"
    by (simp_all add: s1 k)
  let ?s3 = "write_file ?name (Bytes (html_header title ''fi'')) s2"
  have h3: "heap s2 = heap s @ [?c1]" by (simp add: s2)
  from render_Inr_Some [OF rb] have
    b: "template_render eng ?ld tpl (Some ?c1) lk = Inr body" and
    s4: "s4 = ?s3\<lparr>heap := heap s @ [?c2]\<rparr>"
    by (simp_all add: h3 k)
  let ?s5 = "append_file ?name html_footer (append_file ?name body s4)"
  have r4: "read_file s4 ?name = Some (Bytes (html_header title ''fi''))"
    by (simp add: s4)
  have r4': "\<And>p. p \<noteq> ?name \<Longrightarrow> read_file s4 p = read_file s p"
    by (simp add: s4 s2 s1)
  have r5: "read_file (append_file ?name body s4) ?name = Some (Bytes (html_header title ''fi'' @ body))"
    by (simp add: read_append_file [OF r4])
  have rd: "\<And>p. read_file ?s5 p =
      (if p = ?name then Some (Bytes (html_header title ''fi'' @ body @ html_footer))
       else read_file s p)"
    by (simp add: read_append_file [OF r5] r4')
  have hp: "heap ?s5 = heap s @ [?c2]" by (simp add: s4)
  have dr: "dirs ?s5 = dirs s" by (simp add: s4 s2 s1)
  have fn: "fst ` set (files ?s5) = insert ?name (fst ` set (files s))"
    by (simp add: s4 s2 s1 write_file_heap_update)
  from v t b hp dr rd fn rec [unfolded k] show ?thesis by (rule that)
qed


lemma hc_loop_step:
  assumes "hc_loop eng vfs sheets result_dir ((source, row) # rest) acc s = (Inr out, s')"
  obtains html pdf where
    "read_file s source = Some (Bytes html)"
    "write_pdf eng (hc_do_lookup vfs) html sheets = Inr pdf"
    "hc_loop eng vfs sheets result_dir rest
       (acc @ [(path_join result_dir (fst (splitext (basename source)) @ ''.pdf''), row)])
       (write_file (path_join result_dir (fst (splitext (basename source)) @ ''.pdf''))
          (Bytes pdf) s) = (Inr out, s')"
  using assms
  by (auto simp: Let_def split: option.splits content.splits sum.splits)

section \<open>What the split compiler produces\<close>

lemma upt_zip_Suc:
  "zip [i..<Suc (i + m)] [h..<Suc (h + m)] =
     (i, h) # zip [Suc i..<Suc (i + m)] [Suc h..<Suc (h + m)]"
  by (simp add: upt_conv_Cons del: upt_Suc)

lemma compile_split_sources:
  assumes "compile_split eng vfs tpl tt lk src_dir idx rows acc s = (Inr out, s')"
  shows "out = acc @ map (\<lambda>ik. (path_join src_dir (format_03d (fst ik) @ ''.html''), Some (snd ik)))
                     (zip [idx..<idx + length rows] [length (heap s)..<length (heap s) + length rows])
         \<and> length (heap s') = length (heap s) + length rows
         \<and> dirs s' = dirs s"
  using assms
proof (induction rows arbitrary: idx acc s)
  case Nil
  then show ?case by simp
next
  case (Cons row rest)
  show ?case
  proof (rule compile_split_step [OF Cons.prems])
    fix title body s5
    assume h5: "heap s5 = heap s @ [template_effect eng (get_source vfs) tpl
       (template_effect eng (get_source vfs) tt (heap s ! row) []) lk]"
      and d5: "dirs s5 = dirs s"
      and rec: "compile_split eng vfs tpl tt lk src_dir (Suc idx) rest
         (acc @ [(path_join src_dir (format_03d idx @ ''.html''), Some (length (heap s)))]) s5
         = (Inr out, s')"
    from Cons.IH [OF rec] show ?thesis
      by (simp add: h5 d5 upt_zip_Suc del: upt_Suc)
  qed
qed




lemma hc_loop_results:
  assumes "hc_loop eng vfs sheets result_dir sources acc s = (Inr out, s')"
  shows "out = acc @ map (\<lambda>sr. (path_join result_dir (fst (splitext (basename (fst sr))) @ ''.pdf''),
                                 snd sr)) sources
         \<and> heap s' = heap s \<and> dirs s' = dirs s
         \<and> fst ` set (files s') = fst ` set (files s)
              \<union> (\<lambda>sr. path_join result_dir (fst (splitext (basename (fst sr))) @ ''.pdf'')) ` set sources"
  using assms
proof (induction sources arbitrary: acc s)
  case Nil
  then show ?case by simp
next
  case (Cons x rest)
  obtain source row where x: "x = (source, row)" by (cases x)
  show ?case
  proof (rule hc_loop_step [OF Cons.prems [unfolded x]])
    fix html pdf
    assume rec: "hc_loop eng vfs sheets result_dir rest
       (acc @ [(path_join result_dir (fst (splitext (basename source)) @ ''.pdf''), row)])
       (write_file (path_join result_dir (fst (splitext (basename source)) @ ''.pdf''))
          (Bytes pdf) s) = (Inr out, s')"
    let ?dst = "\<lambda>sr. path_join result_dir (fst (splitext (basename (fst sr))) @ ''.pdf'')"
    from Cons.IH [OF rec] have
      o: "out = (acc @ [(?dst (source, row), row)]) @ map (\<lambda>sr. (?dst sr, snd sr)) rest" and
      h: "heap s' = heap s" and d: "dirs s' = dirs s" and
      f: "fst ` set (files s') = insert (?dst (source, row)) (fst ` set (files s)) \<union> ?dst ` set rest"
      by simp_all
    from o have "out = acc @ map (\<lambda>sr. (?dst sr, snd sr)) (x # rest)"
      by (simp add: x)
    moreover from f have "fst ` set (files s') = fst ` set (files s) \<union> ?dst ` set (x # rest)"
      by (simp only: x list.set image_insert) blast
    ultimately show ?thesis using h d by simp
  qed
qed

section \<open>What the merged compiler produces\<close>




lemma merged_title_step:
  assumes c1: "(case dataset of
              [row] \<Rightarrow> (case dict_copy row s of
                          (Inl e, s1) \<Rightarrow> (Inl e, s1)
                        | (Inr a, s1) \<Rightarrow> (Inr (Some a), s1))
            | _ \<Rightarrow> (Inr None, s)) = (Inr row_copy, s1)"
    and c2: "(if dataset \<noteq> [] then render eng vfs tt row_copy [] s1 else (Inr [], s1))
            = (Inr title, s2)"
  shows "row_copy = (case dataset of [row] \<Rightarrow> Some (length (heap s)) | _ \<Rightarrow> None)
       \<and> dirs s2 = dirs s \<and> files s2 = files s
       \<and> (case dataset of
             [] \<Rightarrow> title = [] \<and> heap s2 = heap s
           | [row] \<Rightarrow>
               template_render eng (get_source vfs) tt (Some (heap s ! row)) [] = Inr title
             \<and> heap s2 = heap s @ [template_effect eng (get_source vfs) tt (heap s ! row) []]
           | _ \<Rightarrow> template_render eng (get_source vfs) tt None [] = Inr title \<and> heap s2 = heap s)"
proof (cases dataset)
  case Nil
  with c1 c2 show ?thesis by simp
next
  case (Cons row rest)
  show ?thesis
  proof (cases rest)
    case Nil
    with Cons c1 obtain k where dc: "dict_copy row s = (Inr k, s1)" and rc: "row_copy = Some k"
      by (auto split: prod.splits sum.splits)
    from dict_copy_Inr [OF dc] have
      k: "k = length (heap s)" and s1: "s1 = s\<lparr>heap := heap s @ [heap s ! row]\<rparr>" by auto
    from c2 Cons have rt: "render eng vfs tt (Some k) [] s1 = (Inr title, s2)"
      by (simp add: rc)
    from render_Inr_Some [OF rt] have
      "template_render eng (get_source vfs) tt (Some (heap s ! row)) [] = Inr title"
      "s2 = s1\<lparr>heap := heap s @ [template_effect eng (get_source vfs) tt (heap s ! row) []]\<rparr>"
      by (simp_all add: s1 k)
    with Cons Nil rc k s1 show ?thesis by simp
  next
    case c: (Cons row2 rest2)
    with Cons c1 have rc: "row_copy = None" and s1: "s1 = s" by simp_all
    from c2 Cons have rt: "render eng vfs tt None [] s = (Inr title, s2)"
      by (simp add: rc s1)
    from render_Inr_None [OF rt] Cons c rc show ?thesis by simp
  qed
qed


section \<open>The two compilers\<close>

lemma tc_compile_Inr:
  assumes "tc_compile eng vfs main_file_name src_dir dataset title_pattern split_output s
             = (Inr sources, s1)"
  obtains lookups tpl tt where
    "find_lookup_tables eng (map snd vfs) = Inr lookups"
    "get_template eng vfs main_file_name = Inr tpl"
    "from_string eng title_pattern = Inr tt"
    "(if split_output
      then compile_split eng vfs tpl tt lookups src_dir 1 dataset [] s
      else compile_merged eng vfs tpl tt lookups src_dir dataset s) = (Inr sources, s1)"
  using assms
  by (auto simp: tc_compile_def split: sum.splits if_splits)

lemma hc_compile_Inr:
  assumes "hc_compile eng vfs sources result_dir s = (Inr results, s')"
  obtains sheets where
    "parse_sheets eng vfs (find_stylesheets (map snd vfs)) = Inr sheets"
    "hc_loop eng vfs sheets result_dir sources [] s = (Inr results, s')"
  using assms
  by (auto simp: hc_compile_def split: sum.splits)














section \<open>Non-archive mode\<close>

lemma compile_merged_one_source:
  assumes "compile_merged eng vfs tpl tt lk src_dir dataset s = (Inr sources, s')"
  shows "length sources = 1"
  using assms unfolding compile_merged_def Let_def
  by (auto split: prod.splits sum.splits)

lemma compile_results_Inr:
  assumes "compile_results eng vfs main title_pattern dataset return_archive tmpdir s
             = (Inr results, s')"
  obtains sources s1 where
    "tc_compile eng vfs (file_name (pfile main)) (path_join tmpdir ''src'') dataset title_pattern
       return_archive (mkdir (path_join tmpdir ''result'') (mkdir (path_join tmpdir ''src'') s))
     = (Inr sources, s1)"
    "hc_compile eng vfs sources (path_join tmpdir ''result'') s1 = (Inr results, s')"
  using assms unfolding compile_results_def Let_def
  by (auto split: prod.splits sum.splits)

lemma compile_results_one_result:
  assumes cr: "compile_results eng vfs main title_pattern dataset False tmpdir s = (Inr results, s')"
  shows "length results = 1"
proof (rule compile_results_Inr [OF cr])
  fix sources s1
  assume tc: "tc_compile eng vfs (file_name (pfile main)) (path_join tmpdir ''src'') dataset
       title_pattern False (mkdir (path_join tmpdir ''result'') (mkdir (path_join tmpdir ''src'') s))
     = (Inr sources, s1)"
    and hc: "hc_compile eng vfs sources (path_join tmpdir ''result'') s1 = (Inr results, s')"
  have "length sources = 1"
  proof (rule tc_compile_Inr [OF tc])
    fix lookups tpl tt
    assume "(if False
      then compile_split eng vfs tpl tt lookups (path_join tmpdir ''src'') 1 dataset []
             (mkdir (path_join tmpdir ''result'') (mkdir (path_join tmpdir ''src'') s))
      else compile_merged eng vfs tpl tt lookups (path_join tmpdir ''src'') dataset
             (mkdir (path_join tmpdir ''result'') (mkdir (path_join tmpdir ''src'') s)))
      = (Inr sources, s1)"
    then show ?thesis by (simp add: compile_merged_one_source)
  qed
  moreover have "length results = length sources"
  proof (rule hc_compile_Inr [OF hc])
    fix sheets
    assume "hc_loop eng vfs sheets (path_join tmpdir ''result'') sources [] s1 = (Inr results, s')"
    from hc_loop_results [OF this] show ?thesis by simp
  qed
  ultimately show ?thesis by simp
qed

lemma render_pdf_Inr:
  assumes "find_main fs = Some main"
    and "render_pdf eng fs filename_pattern title_pattern dataset return_archive s = (Inr resp, s')"
  obtains results s1 name_tpl s2 where
    "compile_results eng (files_to_vfs fs) main title_pattern dataset return_archive
       (fst (mkdtemp s)) (snd (mkdtemp s)) = (Inr results, s1)"
    "name_template eng filename_pattern = Inr name_tpl"
    "respond eng (files_to_vfs fs) name_tpl (fst (mkdtemp s)) results return_archive s1
       = (Inr resp, s2)"
    "s' = rmtree (fst (mkdtemp s)) s2"
  using assms unfolding render_pdf_def make_temp_dir_def render_in_tmpdir_def
  by (auto split: prod.splits sum.splits)

text \<open>
  Claim C9. With \<^verbatim>\<open>return_archive\<close> false the two compilers, when they raise nothing, give
  exactly one result; so a render call that finds a Main file and returns a response
  returns the streamed PDF with status 200, never the 401 or the 201 of the packaging
  step.
\<close>

theorem non_archive_render_has_one_result:
  "(compile_results eng vfs main title_pattern dataset False tmpdir s0 = (Inr results, s1)
      \<longrightarrow> length results = 1)
   \<and> (find_main fs = Some main \<longrightarrow>
      render_pdf eng fs filename_pattern title_pattern dataset False s = (Inr resp, s') \<longrightarrow>
        (\<exists>pdf fname. resp = FileResponse pdf ''application/pdf'' (Some fname))
      \<and> status_code resp = 200 \<and> status_code resp \<noteq> 401 \<and> status_code resp \<noteq> 201)"
proof (intro conjI impI)
  assume "compile_results eng vfs main title_pattern dataset False tmpdir s0 = (Inr results, s1)"
  then show "length results = 1" by (rule compile_results_one_result)
next
  assume fm: "find_main fs = Some main"
    and rp: "render_pdf eng fs filename_pattern title_pattern dataset False s = (Inr resp, s')"
  have ex: "\<exists>pdf fname. resp = FileResponse pdf ''application/pdf'' (Some fname)"
  proof (rule render_pdf_Inr [OF fm rp])
    fix rs t1 name_tpl t2
    assume cr: "compile_results eng (files_to_vfs fs) main title_pattern dataset False
         (fst (mkdtemp s)) (snd (mkdtemp s)) = (Inr rs, t1)"
      and rsp: "respond eng (files_to_vfs fs) name_tpl (fst (mkdtemp s)) rs False t1 = (Inr resp, t2)"
    from compile_results_one_result [OF cr] obtain pdf_name row where rs: "rs = [(pdf_name, row)]"
      by (cases rs) auto
    from rsp show ?thesis
      unfolding rs respond_def file_response_def
      by (auto split: prod.splits sum.splits option.splits)
  qed
  then show "\<exists>pdf fname. resp = FileResponse pdf ''application/pdf'' (Some fname)" .
  from ex show "status_code resp = 200" by auto
  from ex show "status_code resp \<noteq> 401" by auto
  from ex show "status_code resp \<noteq> 201" by auto
qed

theorem non_archive_render_has_one_result_witness:
  "find_main [example_file ''m.html'' Main ''M'', example_file ''s.css'' CSS ''S'']
     = Some (example_file ''m.html'' Main ''M'')
   \<and> \<not> isl (fst (render_pdf example_engine
          [example_file ''m.html'' Main ''M'', example_file ''s.css'' CSS ''S'']
          (Some ''N'') ''T'' [0, 1] False example_world))
   \<and> status_code (projr (fst (render_pdf example_engine
          [example_file ''m.html'' Main ''M'', example_file ''s.css'' CSS ''S'']
          (Some ''N'') ''T'' [0, 1] False example_world))) = 200"
proof -
  let ?fs = "[example_file ''m.html'' Main ''M'', example_file ''s.css'' CSS ''S'']"
  let ?R = "render_pdf example_engine ?fs (Some ''N'') ''T'' [0, 1] False example_world"
  have fm: "find_main ?fs = Some (example_file ''m.html'' Main ''M'')" by code_simp
  have ok: "\<not> isl (fst ?R)" by code_simp
  then have rp: "?R = (Inr (projr (fst ?R)), snd ?R)"
    by (cases "fst ?R") (simp_all add: prod_eq_iff)
  from non_archive_render_has_one_result [THEN conjunct2, rule_format, OF fm rp]
  have "status_code (projr (fst ?R)) = 200" by blast
  with fm ok show ?thesis by (simp only: simp_thms)
qed

section \<open>Frames of the packaging step\<close>

lemma evolves_NameFactory_make:
  assumes "NameFactory_make eng vfs name_tpl row fallback s = (r, s')"
    and "\<And>a. row = Some a \<Longrightarrow> n \<le> a"
  shows "evolves U n s s'"
proof (cases name_tpl)
  case None
  with assms(1) show ?thesis by (simp add: NameFactory_make_def)
next
  case (Some tpl)
  obtain r1 s1 where rn: "render eng vfs tpl row [] s = (r1, s1)" by force
  from evolves_render [OF rn assms(2)] have "evolves U n s s1" by simp
  with assms(1) Some rn show ?thesis
    by (cases r1) (simp_all add: NameFactory_make_def)
qed

lemma evolves_zip_write:
  assumes "zip_write z_name pdf_name arc_name s = (r, s')" and "U z_name"
  shows "evolves U n s s'"
  using assms
  by (auto simp: zip_write_def evolves_write_file split: option.splits content.splits)

lemma evolves_zip_results:
  assumes "zip_results eng vfs name_tpl z_name results s = (r, s')"
    and "U z_name"
    and "\<forall>pr \<in> set results. \<forall>a. snd pr = Some a \<longrightarrow> n \<le> a"
  shows "evolves U n s s'"
  using assms(1,3)
proof (induction results arbitrary: s)
  case Nil
  then show ?case by simp
next
  case (Cons x rest)
  obtain pdf_name row where x: "x = (pdf_name, row)" by (cases x)
  obtain r1 s1 where nf: "NameFactory_make eng vfs name_tpl row (basename pdf_name) s = (r1, s1)"
    by force
  have e1: "evolves U n s s1"
    by (rule evolves_NameFactory_make [OF nf]) (use Cons.prems(2) x in simp)
  show ?case
  proof (cases r1)
    case (Inl e)
    with Cons.prems(1) x nf e1 show ?thesis by simp
  next
    case (Inr arc_name)
    obtain r2 s2 where zw: "zip_write z_name pdf_name arc_name s1 = (r2, s2)" by force
    from evolves_zip_write [where U = U, OF zw assms(2)] e1 have e2: "evolves U n s s2"
      by (rule evolves_trans [rotated])
    show ?thesis
    proof (cases r2)
      case (Inl e)
      with Cons.prems(1) x nf Inr zw e2 show ?thesis by simp
    next
      case u: (Inr u)
      with Cons.prems(1) x nf Inr zw
      have "zip_results eng vfs name_tpl z_name rest s2 = (r, s')" by simp
      from Cons.IH [OF this] Cons.prems(2) have "evolves U n s2 s'" by simp
      with e2 show ?thesis by (rule evolves_trans)
    qed
  qed
qed

lemma file_response_state: "file_response path ctype fname s = (r, s') \<Longrightarrow> s' = s"
  by (auto simp: file_response_def split: option.splits)

lemma evolves_respond:
  assumes "respond eng vfs name_tpl tmpdir results return_archive s = (r, s')"
    and "U (path_join tmpdir ''result.zip'')"
    and "\<forall>pr \<in> set results. \<forall>a. snd pr = Some a \<longrightarrow> n \<le> a"
  shows "evolves U n s s'"
proof (cases return_archive)
  case True
  let ?z = "path_join tmpdir ''result.zip''"
  obtain r1 s1 where zr: "zip_results eng vfs name_tpl ?z results (write_file ?z (Zip []) s) = (r1, s1)"
    by force
  have "evolves U n s (write_file ?z (Zip []) s)"
    using assms(2) by (rule evolves_write_file)
  from this evolves_zip_results [where U = U, OF zr assms(2,3)] have e1: "evolves U n s s1"
    by (rule evolves_trans)
  from assms(1) True zr e1 show ?thesis
    by (cases r1) (auto simp: respond_def Let_def dest: file_response_state)
next
  case False
  show ?thesis
  proof (cases results)
    case Nil
    with assms(1) False show ?thesis by (simp add: respond_def)
  next
    case (Cons x rest)
    obtain pdf_name row where x: "x = (pdf_name, row)" by (cases x)
    show ?thesis
    proof (cases rest)
      case c: (Cons y rest')
      with assms(1) False Cons show ?thesis by (simp add: respond_def)
    next
      case Nil
      obtain r1 s1 where nf: "NameFactory_make eng vfs name_tpl row ''result.pdf'' s = (r1, s1)"
        by force
      have e1: "evolves U n s s1"
        by (rule evolves_NameFactory_make [OF nf]) (use assms(3) Cons x in simp)
      from assms(1) False Cons Nil x nf e1 show ?thesis
        by (cases r1) (auto simp: respond_def dest: file_response_state)
    qed
  qed
qed

section \<open>The references of the compiled results\<close>

lemma compile_merged_refs:
  assumes "compile_merged eng vfs tpl tt lk src_dir dataset s = (Inr sources, s')"
  shows "\<forall>pr \<in> set sources. \<forall>a. snd pr = Some a \<longrightarrow> length (heap s) \<le> a"
proof -
  from assms obtain row_copy s1 title s2 where
    c1: "(case dataset of
              [row] \<Rightarrow> (case dict_copy row s of
                          (Inl e, s1) \<Rightarrow> (Inl e, s1)
                        | (Inr a, s1) \<Rightarrow> (Inr (Some a), s1))
            | _ \<Rightarrow> (Inr None, s)) = (Inr row_copy, s1)" and
    c2: "(if dataset \<noteq> [] then render eng vfs tt row_copy [] s1 else (Inr [], s1))
            = (Inr title, s2)" and
    src: "sources = [(path_join src_dir ''master.html'', row_copy)]"
    unfolding compile_merged_def Let_def
    by (auto split: prod.splits sum.splits)
  from merged_title_step [OF c1 c2]
  have "row_copy = (case dataset of [row] \<Rightarrow> Some (length (heap s)) | _ \<Rightarrow> None)"
    by simp
  with src show ?thesis by (auto split: list.splits)
qed

lemma compile_split_refs:
  assumes "compile_split eng vfs tpl tt lk src_dir idx rows [] s = (Inr sources, s')"
  shows "\<forall>pr \<in> set sources. \<forall>a. snd pr = Some a \<longrightarrow> length (heap s) \<le> a"
proof -
  from compile_split_sources [OF assms] have
    "sources = map (\<lambda>ik. (path_join src_dir (format_03d (fst ik) @ ''.html''), Some (snd ik)))
                     (zip [idx..<idx + length rows] [length (heap s)..<length (heap s) + length rows])"
    by simp
  then show ?thesis by (auto dest!: set_zip_rightD)
qed

lemma tc_compile_refs:
  assumes "tc_compile eng vfs main_file_name src_dir dataset title_pattern split_output s
             = (Inr sources, s1)"
  shows "\<forall>pr \<in> set sources. \<forall>a. snd pr = Some a \<longrightarrow> length (heap s) \<le> a"
proof (rule tc_compile_Inr [OF assms])
  fix lookups tpl tt
  assume "(if split_output
      then compile_split eng vfs tpl tt lookups src_dir 1 dataset [] s
      else compile_merged eng vfs tpl tt lookups src_dir dataset s) = (Inr sources, s1)"
  then show ?thesis
    by (cases split_output) (simp_all add: compile_split_refs compile_merged_refs)
qed

lemma hc_compile_refs:
  assumes "hc_compile eng vfs sources result_dir s = (Inr results, s')"
  shows "map snd results = map snd sources"
proof (rule hc_compile_Inr [OF assms])
  fix sheets
  assume "hc_loop eng vfs sheets result_dir sources [] s = (Inr results, s')"
  from hc_loop_results [OF this] show ?thesis by (simp add: comp_def)
qed

lemma compile_results_refs:
  assumes "compile_results eng vfs main title_pattern dataset return_archive tmpdir s
             = (Inr results, s')"
  shows "\<forall>pr \<in> set results. \<forall>a. snd pr = Some a \<longrightarrow> length (heap s) \<le> a"
proof (rule compile_results_Inr [OF assms])
  fix sources s1
  assume tc: "tc_compile eng vfs (file_name (pfile main)) (path_join tmpdir ''src'') dataset
       title_pattern return_archive
       (mkdir (path_join tmpdir ''result'') (mkdir (path_join tmpdir ''src'') s)) = (Inr sources, s1)"
    and hc: "hc_compile eng vfs sources (path_join tmpdir ''result'') s1 = (Inr results, s')"
  from tc_compile_refs [OF tc]
  have "\<forall>r \<in> set (map snd sources). \<forall>a. r = Some a \<longrightarrow> length (heap s) \<le> a"
    by simp
  then have "\<forall>r \<in> set (map snd results). \<forall>a. r = Some a \<longrightarrow> length (heap s) \<le> a"
    by (simp only: hc_compile_refs [OF hc])
  then show ?thesis by simp
qed

section \<open>The temporary directory\<close>

lemma tmp_dir_shape:
  "fst (mkdtemp s) \<noteq> []" "\<not> suffix ''/'' (fst (mkdtemp s))"
proof -
  show "fst (mkdtemp s) \<noteq> []" by (simp add: mkdtemp_def Let_def)
  have "last (dec (tmp_seq s)) \<in> set (dec (tmp_seq s))"
    by (rule last_in_set) (rule dec_not_Nil)
  with dec_digits [of "tmp_seq s"] have "last (dec (tmp_seq s)) \<noteq> CHR ''/''" by auto
  from not_suffix_slash_append [OF dec_not_Nil this]
  have "\<not> suffix ''/'' (''/tmp/tmp'' @ dec (tmp_seq s))" .
  moreover have "fst (mkdtemp s) = ''/tmp/tmp'' @ dec (tmp_seq s)"
    by (simp add: mkdtemp_def Let_def)
  ultimately show "\<not> suffix ''/'' (fst (mkdtemp s))" by metis
qed

lemma mkdtemp_fields:
  "dirs (snd (mkdtemp s)) = dirs s @ [fst (mkdtemp s)]"
  "files (snd (mkdtemp s)) = files s"
  "heap (snd (mkdtemp s)) = heap s"
  by (simp_all add: mkdtemp_def Let_def)

lemma path_under_refl: "path_under d d"
  by (simp add: path_under_def)

lemma tmp_paths:
  assumes "d \<noteq> []" "\<not> suffix ''/'' d"
  shows "path_under d (path_join d ''src'')"
    and "path_under d (path_join d ''result'')"
    and "path_under d (path_join d ''result.zip'')"
    and "\<And>b. CHR ''/'' \<notin> set b \<Longrightarrow> path_under d (path_join (path_join d ''src'') b)"
    and "\<And>b. CHR ''/'' \<notin> set b \<Longrightarrow> path_under d (path_join (path_join d ''result'') b)"
proof -
  have sub: "path_under d (path_join d n) \<and> path_join d n \<noteq> [] \<and> \<not> suffix ''/'' (path_join d n)"
    if "CHR ''/'' \<notin> set n" "n \<noteq> []" for n
  proof -
    from that(1) have np: "\<not> prefix ''/'' n" by (rule no_slash_not_prefix)
    from that have "last n \<noteq> CHR ''/''" by (metis last_in_set)
    then have "last (''/'' @ n) \<noteq> CHR ''/''" using that(2) by simp
    from not_suffix_slash_append [OF _ this, of d] have "\<not> suffix ''/'' (d @ ''/'' @ n)" by simp
    with path_under_join [OF path_under_refl assms np] path_join_plain [OF assms np]
    show ?thesis by simp
  qed
  from sub [of "''src''"] show s: "path_under d (path_join d ''src'')" by simp
  from sub [of "''result''"] show r: "path_under d (path_join d ''result'')" by simp
  from sub [of "''result.zip''"] show "path_under d (path_join d ''result.zip'')" by simp
  have s3: "path_under d (path_join d ''src'')" "path_join d ''src'' \<noteq> []"
    "\<not> suffix ''/'' (path_join d ''src'')"
    using sub [of "''src''"] by simp_all
  have r3: "path_under d (path_join d ''result'')" "path_join d ''result'' \<noteq> []"
    "\<not> suffix ''/'' (path_join d ''result'')"
    using sub [of "''result''"] by simp_all
  show "path_under d (path_join (path_join d ''src'') b)" if "CHR ''/'' \<notin> set b" for b
    by (rule path_under_join [OF s3 no_slash_not_prefix [OF that]])
  show "path_under d (path_join (path_join d ''result'') b)" if "CHR ''/'' \<notin> set b" for b
    by (rule path_under_join [OF r3 no_slash_not_prefix [OF that]])
qed

lemma evolves_compile_results:
  assumes cr: "compile_results eng vfs main title_pattern dataset return_archive tmpdir s = (r, s')"
    and d: "tmpdir \<noteq> []" "\<not> suffix ''/'' tmpdir"
    and n: "n \<le> length (heap s)"
  shows "evolves (path_under tmpdir) n s s'"
proof -
  let ?U = "path_under tmpdir"
  let ?src = "path_join tmpdir ''src''"
  let ?res = "path_join tmpdir ''result''"
  let ?s0 = "mkdir ?res (mkdir ?src s)"
  note tp = tmp_paths [OF d]
  have e0: "evolves ?U n s ?s0"
    by (rule evolves_trans [OF evolves_mkdir evolves_mkdir]) (rule tp)+
  have n0: "n \<le> length (heap ?s0)" using n by simp
  obtain r1 s1 where tc: "tc_compile eng vfs (file_name (pfile main)) ?src dataset title_pattern
      return_archive ?s0 = (r1, s1)" by force
  have e1: "evolves ?U n ?s0 s1"
    by (rule evolves_tc_compile [OF tc _ n0]) (rule tp)
  note e01 = evolves_trans [OF e0 e1]
  show ?thesis
  proof (cases r1)
    case (Inl e)
    with cr tc e01 show ?thesis by (simp add: compile_results_def Let_def)
  next
    case (Inr sources)
    with cr tc have hc: "hc_compile eng vfs sources ?res s1 = (r, s')"
      by (simp add: compile_results_def Let_def)
    have "evolves ?U n s1 s'"
      by (rule evolves_hc_compile [OF hc]) (rule tp)
    with e01 show ?thesis by (rule evolves_trans)
  qed
qed

lemma evolves_render_in_tmpdir:
  assumes rt: "render_in_tmpdir eng vfs main filename_pattern title_pattern dataset return_archive
                 tmpdir s = (r, s')"
    and d: "tmpdir \<noteq> []" "\<not> suffix ''/'' tmpdir"
    and n: "n \<le> length (heap s)"
  shows "evolves (path_under tmpdir) n s s'"
proof -
  let ?U = "path_under tmpdir"
  obtain r1 s1 where cr: "compile_results eng vfs main title_pattern dataset return_archive tmpdir s
      = (r1, s1)" by force
  note e1 = evolves_compile_results [OF cr d n]
  show ?thesis
  proof (cases r1)
    case (Inl e)
    with rt cr e1 show ?thesis by (simp add: render_in_tmpdir_def)
  next
    case (Inr results)
    show ?thesis
    proof (cases "name_template eng filename_pattern")
      case (Inl e)
      with rt cr Inr e1 show ?thesis by (simp add: render_in_tmpdir_def)
    next
      case nt: (Inr name_tpl)
      with rt cr Inr have rs: "respond eng vfs name_tpl tmpdir results return_archive s1 = (r, s')"
        by (simp add: render_in_tmpdir_def)
      from compile_results_refs [OF cr [unfolded Inr]] n
      have refs: "\<forall>pr \<in> set results. \<forall>a. snd pr = Some a \<longrightarrow> n \<le> a"
        by (meson order_trans)
      have "evolves ?U n s1 s'"
        by (rule evolves_respond [OF rs _ refs]) (rule tmp_paths [OF d])
      with e1 show ?thesis by (rule evolves_trans)
    qed
  qed
qed

lemma render_pdf_frame:
  assumes fm: "find_main fs = Some main"
    and rp: "render_pdf eng fs filename_pattern title_pattern dataset return_archive s = (r, s')"
  obtains s2 where
    "evolves (path_under (fst (mkdtemp s))) (length (heap s)) (snd (mkdtemp s)) s2"
    "s' = rmtree (fst (mkdtemp s)) s2"
proof -
  obtain s2 where rt: "render_in_tmpdir eng (files_to_vfs fs) main filename_pattern title_pattern
      dataset return_archive (fst (mkdtemp s)) (snd (mkdtemp s)) = (r, s2)"
    and s': "s' = rmtree (fst (mkdtemp s)) s2"
    using fm rp unfolding render_pdf_def make_temp_dir_def
    by (auto split: prod.splits)
  have "length (heap s) \<le> length (heap (snd (mkdtemp s)))"
    by (simp add: mkdtemp_fields)
  from evolves_render_in_tmpdir [OF rt tmp_dir_shape this] s' show ?thesis by (rule that)
qed

lemma rmtree_fields:
  "dirs (rmtree d s) = filter (\<lambda>p. \<not> path_under d p) (dirs s)"
  "files (rmtree d s) = filter (\<lambda>pc. \<not> path_under d (fst pc)) (files s)"
  "heap (rmtree d s) = heap s"
  by (simp_all add: rmtree_def)

text \<open>
  Claim C6. When a Main file is found, the render operation creates a temporary
  directory, and whatever the call ends in, a response or an exception of the template
  compiler, the HTML compiler or the packaging step, that directory is gone afterwards
  together with everything below it: no directory and no file of the final file system
  lies under it, and the final file system is the initial one without the paths under
  the temporary directory.
\<close>

theorem temporary_directory_is_removed:
  assumes fm: "find_main fs = Some main"
    and rp: "render_pdf eng fs filename_pattern title_pattern dataset return_archive s = (r, s')"
  shows "fst (mkdtemp s) \<in> set (dirs (snd (mkdtemp s)))
    \<and> fst (mkdtemp s) \<notin> set (dirs s')
    \<and> (\<forall>p \<in> set (dirs s'). \<not> path_under (fst (mkdtemp s)) p)
    \<and> (\<forall>pc \<in> set (files s'). \<not> path_under (fst (mkdtemp s)) (fst pc))
    \<and> dirs s' = filter (\<lambda>p. \<not> path_under (fst (mkdtemp s)) p) (dirs s)
    \<and> files s' = filter (\<lambda>pc. \<not> path_under (fst (mkdtemp s)) (fst pc)) (files s)"
proof (rule render_pdf_frame [OF fm rp])
  let ?tmp = "fst (mkdtemp s)"
  fix s2
  assume ev: "evolves (path_under ?tmp) (length (heap s)) (snd (mkdtemp s)) s2"
    and s': "s' = rmtree ?tmp s2"
  from ev have
    d2: "filter (\<lambda>p. \<not> path_under ?tmp p) (dirs s2) =
         filter (\<lambda>p. \<not> path_under ?tmp p) (dirs (snd (mkdtemp s)))" and
    f2: "filter (\<lambda>pc. \<not> path_under ?tmp (fst pc)) (files s2) =
         filter (\<lambda>pc. \<not> path_under ?tmp (fst pc)) (files (snd (mkdtemp s)))"
    by (simp_all add: evolves_def)
  have d': "dirs s' = filter (\<lambda>p. \<not> path_under ?tmp p) (dirs s)"
    by (simp add: s' rmtree_fields d2 mkdtemp_fields path_under_refl)
  have f': "files s' = filter (\<lambda>pc. \<not> path_under ?tmp (fst pc)) (files s)"
    by (simp add: s' rmtree_fields f2 mkdtemp_fields)
  have c: "?tmp \<in> set (dirs (snd (mkdtemp s)))"
    by (simp add: mkdtemp_fields)
  have g: "?tmp \<notin> set (dirs s')"
    by (simp add: d' path_under_refl)
  have a1: "\<forall>p \<in> set (dirs s'). \<not> path_under ?tmp p" by (simp add: d')
  have a2: "\<forall>pc \<in> set (files s'). \<not> path_under ?tmp (fst pc)" by (simp add: f')
  from c g a1 a2 d' f' show ?thesis by (intro conjI)
qed

theorem temporary_directory_is_removed_witness:
  "find_main [example_file ''m.html'' Main ''M'', example_file ''s.css'' CSS ''S'']
     = Some (example_file ''m.html'' Main ''M'')
   \<and> \<not> isl (fst (render_pdf example_engine
          [example_file ''m.html'' Main ''M'', example_file ''s.css'' CSS ''S'']
          None ''T'' [0, 1] True example_world))
   \<and> dirs (snd (render_pdf example_engine
          [example_file ''m.html'' Main ''M'', example_file ''s.css'' CSS ''S'']
          None ''T'' [0, 1] True example_world)) = [''/tmp'']
   \<and> files (snd (render_pdf example_engine
          [example_file ''m.html'' Main ''M'', example_file ''s.css'' CSS ''S'']
          None ''T'' [0, 1] True example_world)) = []
   \<and> isl (fst (render_pdf example_engine
          [example_file ''m.html'' Main ''M'', example_file ''s.css'' CSS ''S'']
          None ''{%'' [0, 1] True example_world))
   \<and> dirs (snd (render_pdf example_engine
          [example_file ''m.html'' Main ''M'', example_file ''s.css'' CSS ''S'']
          None ''{%'' [0, 1] True example_world)) = [''/tmp'']"
proof -
  let ?fs = "[example_file ''m.html'' Main ''M'', example_file ''s.css'' CSS ''S'']"
  let ?R = "render_pdf example_engine ?fs None ''T'' [0, 1] True example_world"
  let ?E = "render_pdf example_engine ?fs None ''{%'' [0, 1] True example_world"
  have fm: "find_main ?fs = Some (example_file ''m.html'' Main ''M'')" by code_simp
  have ok: "\<not> isl (fst ?R)" by code_simp
  have bad: "isl (fst ?E)" by code_simp
  have d0: "filter (\<lambda>p. \<not> path_under (fst (mkdtemp example_world)) p) (dirs example_world)
      = [''/tmp'']" by code_simp
  have f0: "filter (\<lambda>pc. \<not> path_under (fst (mkdtemp example_world)) (fst pc)) (files example_world)
      = []" by code_simp
  have rp: "?R = (fst ?R, snd ?R)" by simp
  have ep: "?E = (fst ?E, snd ?E)" by simp
  from temporary_directory_is_removed [OF fm rp]
  have "dirs (snd ?R) = [''/tmp'']" "files (snd ?R) = []"
    by (simp_all only: d0 f0)
  moreover from temporary_directory_is_removed [OF fm ep]
  have "dirs (snd ?E) = [''/tmp'']"
    by (simp only: d0)
  ultimately show ?thesis using fm ok bad by (simp only: simp_thms)
qed




section \<open>The archive\<close>












end
